theory Spec2Isabelle
  imports Main "HOL-Library.Word"
begin

section \<open>Shared vocabulary\<close>

type_synonym uint64 = "64 word"
type_synonym byte = "8 word"

text \<open>
  Go's \<^verbatim>\<open>error\<close> values that the modelled code creates or inspects: an error reported by
  the coordination store client (code and message), an error made by \<^verbatim>\<open>fmt.Errorf\<close>,
  and \<^verbatim>\<open>io.EOF\<close>. A \<^verbatim>\<open>nil\<close> error is \<open>None\<close> of \<open>error option\<close>.
\<close>

datatype error = EtcdError nat string | Errorf string | EOF

section \<open>store/s3.go\<close>

text \<open>
  \<^verbatim>\<open>S3File\<close> embeds an \<^verbatim>\<open>s3.Bucket\<close> (here: the bucket's name), the key of the object and a
  \<^verbatim>\<open>*bytes.Buffer\<close>. A \<^verbatim>\<open>bytes.Buffer\<close> is modelled by its unread portion, the byte
  sequence over which the library specifies \<^verbatim>\<open>Read\<close>, \<^verbatim>\<open>Write\<close> and \<^verbatim>\<open>Bytes\<close>.
\<close>

record S3File =
  Bucket :: string
  keyPath :: string
  buf :: "byte list"

datatype acl = BucketOwnerFull | Private

text \<open>
  The object store is outside the process. Its state is the stored objects, by bucket
  and key, together with the log of put requests it has received.
\<close>

record put_request =
  put_bucket :: string
  put_path :: string
  put_data :: "byte list"
  put_contType :: string
  put_perm :: acl

record s3_service =
  objects :: "string \<times> string \<Rightarrow> byte list option"
  put_log :: "put_request list"

text \<open>
  \<^verbatim>\<open>bytes.Buffer.Write\<close> appends \<open>p\<close> and returns \<open>len(p)\<close> with a nil error;
  \<^verbatim>\<open>bytes.Buffer.Read\<close> hands out the next \<open>n\<close> unread bytes (\<open>n\<close> is the length of the
  slice passed in) and reports \<^verbatim>\<open>io.EOF\<close> when nothing is unread and \<open>n > 0\<close>.
\<close>

definition Buffer_Write :: "byte list \<Rightarrow> byte list \<Rightarrow> (nat \<times> error option) \<times> byte list" where
  "Buffer_Write b p = ((length p, None), b @ p)"

definition Buffer_Read :: "byte list \<Rightarrow> nat \<Rightarrow> (byte list \<times> error option) \<times> byte list" where
  "Buffer_Read b n =
     (if b = [] then (if n = 0 then (([], None), b) else (([], Some EOF), b))
      else ((take n b, None), drop n b))"

definition Buffer_Bytes :: "byte list \<Rightarrow> byte list" where
  "Buffer_Bytes b = b"

text \<open>
  \<^verbatim>\<open>s3.Bucket.Put(path, data, contType, perm)\<close>: one request to the service. Whether the
  request succeeds is decided outside the program and is the argument \<open>outcome\<close>; a
  successful put stores \<open>data\<close> under the bucket and path.
\<close>

definition Bucket_Put ::
  "error option \<Rightarrow> s3_service \<Rightarrow> string \<Rightarrow> string \<Rightarrow> byte list \<Rightarrow> string \<Rightarrow> acl
     \<Rightarrow> error option \<times> s3_service" where
  "Bucket_Put outcome S b path data contType perm =
     (let req = \<lparr>put_bucket = b, put_path = path, put_data = data,
                  put_contType = contType, put_perm = perm\<rparr>;
          S' = S\<lparr>put_log := put_log S @ [req]\<rparr>
      in case outcome of
           Some e \<Rightarrow> (Some e, S')
         | None \<Rightarrow> (None, S'\<lparr>objects := (objects S')((b, path) \<mapsto> data)\<rparr>))"

text \<open>
  The three methods of \<^verbatim>\<open>S3File\<close>. Each takes the file and the service and returns its
  Go result with the file and the service afterwards.
\<close>

definition S3File_Read ::
  "S3File \<Rightarrow> s3_service \<Rightarrow> nat \<Rightarrow> (byte list \<times> error option) \<times> S3File \<times> s3_service" where
  "S3File_Read s3f S n =
     (case Buffer_Read (buf s3f) n of (r, b') \<Rightarrow> (r, s3f\<lparr>buf := b'\<rparr>, S))"

definition S3File_Write ::
  "S3File \<Rightarrow> s3_service \<Rightarrow> byte list \<Rightarrow> (nat \<times> error option) \<times> S3File \<times> s3_service" where
  "S3File_Write s3f S p =
     (case Buffer_Write (buf s3f) p of (r, b') \<Rightarrow> (r, s3f\<lparr>buf := b'\<rparr>, S))"

definition S3File_Sync ::
  "error option \<Rightarrow> S3File \<Rightarrow> s3_service \<Rightarrow> error option \<times> S3File \<times> s3_service" where
  "S3File_Sync outcome s3f S =
     (case Bucket_Put outcome S (Bucket s3f) (keyPath s3f) (Buffer_Bytes (buf s3f))
             ''binary'' BucketOwnerFull of
        (err, S') \<Rightarrow> (err, s3f, S'))"

text \<open>A sequence of \<^verbatim>\<open>Write\<close> calls, one per element of \<open>ps\<close>, in order.\<close>

fun S3File_Writes :: "S3File \<Rightarrow> s3_service \<Rightarrow> byte list list \<Rightarrow> S3File \<times> s3_service" where
  "S3File_Writes s3f S [] = (s3f, S)"
| "S3File_Writes s3f S (p # ps) =
     (case S3File_Write s3f S p of (r, s3f', S') \<Rightarrow> S3File_Writes s3f' S' ps)"

section \<open>framework/bootstrap.go: data\<close>

text \<open>
  The parts of go-etcd's \<^verbatim>\<open>etcd.Response\<close> and \<^verbatim>\<open>etcd.Node\<close> that the code reads.
\<close>

datatype node = EtcdNode (Key: string) (Value: string) (Nodes: "node list")

record response =
  Action :: string
  Node :: node
  EtcdIndex :: uint64

datatype taskRole = roleNone | roleParent | roleChild

text \<open>A channel made by \<^verbatim>\<open>make(chan T, n)\<close>, known by its capacity.\<close>

datatype chan = make_chan (capacity: nat)

text \<open>
  The fields of \<^verbatim>\<open>framework\<close> that \<^verbatim>\<open>Start\<close>, \<^verbatim>\<open>occupyTask\<close> and \<^verbatim>\<open>watchAll\<close> read
  or assign; \<open>addr\<close> is \<^verbatim>\<open>f.ln.Addr().String()\<close>.
\<close>

record framework =
  name :: string
  addr :: string
  taskID :: uint64
  epoch :: uint64
  epochChan :: "chan option"
  dataRespChan :: "chan option"
  stops :: "chan list"

text \<open>
  What the node does that others can observe: calls on the coordination store (with the
  answer received), calls on the task and the topology, log lines, goroutines started
  whose code is elsewhere, and the two ways the process is brought down
  (\<^verbatim>\<open>log.Fatalf\<close>, \<^verbatim>\<open>panic\<close>).
\<close>

datatype event =
    NewClient
  | EtcdGet string bool bool "error + response"
  | LogWarn string
  | EvTryOccupyTask string uint64 string bool
  | EvStandby "error option"
  | Fatalf string
  | Panic string
  | GetTask uint64
  | SetTaskID uint64
  | TaskInit uint64
  | EvGetAndWatchEpoch string "error + uint64"
  | GoHeartbeat
  | GoDetectAndReportFailures
  | GoWatch string uint64
  | HttpServe "error option"
  | GoDataResponseReceiver
  | ParentMetaReady uint64 string
  | ChildMetaReady uint64 string
  | SetEpoch uint64
  | LogPrint string
  | ReleaseResources

text \<open>
  One step of the goroutine that runs \<^verbatim>\<open>Start\<close>: an event of its own, or a \<^verbatim>\<open>go\<close>
  statement starting a goroutine whose events, in its own order, are given.
\<close>

datatype act = Do event | Go "event list"

datatype abort = FatalExit | GoPanic

text \<open>
  Everything \<^verbatim>\<open>bootstrap.go\<close> calls but does not define. The coordination store and
  the other nodes are a state \<open>'w\<close> that every call on the store may change:
  \<^item> \<open>etcdGet w key sort recursive\<close> is \<^verbatim>\<open>f.etcdClient.Get\<close>; the client returns either
    an error or a response;
  \<^item> \<open>etcdWatch key index\<close> is the sequence of responses that
    \<^verbatim>\<open>f.etcdClient.Watch(key, index, false, receiver, stop)\<close> sends on \<open>receiver\<close>
    before the channel is closed: the changes of \<open>key\<close> from \<open>index\<close> on in the store's
    history of this run;
  \<^item> \<open>TryOccupyTask\<close>, \<open>GetAndWatchEpoch\<close>, \<open>IsKeyNotFound\<close> and the three path makers
    are the functions of package \<^verbatim>\<open>etcdutil\<close>; \<open>GetAndWatchEpoch\<close> returns the epoch, or
    an error together with the value it returns beside it; \<open>epochUpdates w\<close> is the
    sequence of values received from \<^verbatim>\<open>f.epochChan\<close> before it is closed;
  \<^item> \<open>standby\<close> is \<^verbatim>\<open>f.standby\<close>;
  \<^item> \<open>httpServe w\<close> is the error with which \<^verbatim>\<open>http.Serve(f.ln, handler)\<close>, called in
    state \<open>w\<close>, returns, and \<open>None\<close> when it returns none or keeps serving;
  \<^item> \<open>path_Base\<close> is \<^verbatim>\<open>path.Base\<close> and \<open>ParseUint s\<close> is
    \<^verbatim>\<open>strconv.ParseUint(s, 0, 64)\<close>, \<open>None\<close> when it returns an error;
  \<^item> \<open>GetParents taskID epoch\<close> and \<open>GetChildren taskID epoch\<close> are the topology's
    answers after \<^verbatim>\<open>SetTaskID(taskID)\<close>.
\<close>

record 'w env =
  etcdGet :: "'w \<Rightarrow> string \<Rightarrow> bool \<Rightarrow> bool \<Rightarrow> (error + response) \<times> 'w"
  etcdWatch :: "string \<Rightarrow> uint64 \<Rightarrow> response list"
  TryOccupyTask :: "'w \<Rightarrow> string \<Rightarrow> uint64 \<Rightarrow> string \<Rightarrow> bool \<times> 'w"
  GetAndWatchEpoch :: "'w \<Rightarrow> string \<Rightarrow> ((uint64 \<times> error) + uint64) \<times> 'w"
  epochUpdates :: "'w \<Rightarrow> uint64 list"
  standby :: "'w \<Rightarrow> error option \<times> 'w"
  httpServe :: "'w \<Rightarrow> error option"
  IsKeyNotFound :: "error \<Rightarrow> bool"
  MakeTaskDirPath :: "string \<Rightarrow> string"
  MakeChildMetaPath :: "string \<Rightarrow> uint64 \<Rightarrow> string"
  MakeParentMetaPath :: "string \<Rightarrow> uint64 \<Rightarrow> string"
  path_Base :: "string \<Rightarrow> string"
  ParseUint :: "string \<Rightarrow> uint64 option"
  GetParents :: "uint64 \<Rightarrow> uint64 \<Rightarrow> uint64 list"
  GetChildren :: "uint64 \<Rightarrow> uint64 \<Rightarrow> uint64 list"

section \<open>framework/bootstrap.go: occupyTask\<close>

text \<open>
  The loop over \<^verbatim>\<open>slots.Node.Nodes\<close>. An entry whose key does not parse is logged and
  skipped (\<^verbatim>\<open>continue\<close>); the first entry whose claim succeeds ends the loop with its
  ID; after the last entry the function returns 0 and the error.
\<close>

fun occupyTask_loop ::
  "'w env \<Rightarrow> framework \<Rightarrow> 'w \<Rightarrow> node list \<Rightarrow> (uint64 \<times> error option) \<times> 'w \<times> event list" where
  "occupyTask_loop E f w [] = ((0, Some (Errorf ''no unassigned task found'')), w, [])"
| "occupyTask_loop E f w (s # ss) =
     (case ParseUint E (path_Base E (Key s)) of
        None \<Rightarrow>
          (case occupyTask_loop E f w ss of
             (r, w', tr) \<Rightarrow>
               (r, w', LogWarn ''taskID isn't integer, registration on etcd has been corrupted!'' # tr))
      | Some taskid \<Rightarrow>
          (case TryOccupyTask E w (name f) taskid (addr f) of
             (ok, w1) \<Rightarrow>
               if ok then ((taskid, None), w1, [EvTryOccupyTask (name f) taskid (addr f) True])
               else (case occupyTask_loop E f w1 ss of
                       (r, w', tr) \<Rightarrow> (r, w', EvTryOccupyTask (name f) taskid (addr f) False # tr))))"

definition occupyTask ::
  "'w env \<Rightarrow> framework \<Rightarrow> 'w \<Rightarrow> (uint64 \<times> error option) \<times> 'w \<times> event list" where
  "occupyTask E f w =
     (case etcdGet E w (MakeTaskDirPath E (name f)) True True of
        (Inl err, w1) \<Rightarrow>
          ((0, Some err), w1, [EtcdGet (MakeTaskDirPath E (name f)) True True (Inl err)])
      | (Inr slots, w1) \<Rightarrow>
          (case occupyTask_loop E f w1 (Nodes (Node slots)) of
             (r, w2, tr) \<Rightarrow>
               (r, w2, EtcdGet (MakeTaskDirPath E (name f)) True True (Inr slots) # tr)))"

section \<open>framework/bootstrap.go: watchAll\<close>

text \<open>
  The goroutine started for one neighbour. \<open>resp\<close> is the baseline response it captured
  (\<open>None\<close> for Go's nil), \<open>receiver\<close> the responses it receives. It first hands the
  baseline over, if there is one, then every received response whose action is
  \<^verbatim>\<open>"set"\<close>; each hand-over is preceded by a log line.
\<close>

fun deliver_loop :: "(uint64 \<Rightarrow> string \<Rightarrow> event) \<Rightarrow> uint64 \<Rightarrow> response list \<Rightarrow> event list" where
  "deliver_loop taskCallback tid [] = []"
| "deliver_loop taskCallback tid (resp # receiver) =
     (if Action resp \<noteq> ''set'' then deliver_loop taskCallback tid receiver
      else LogPrint ''task'' # taskCallback tid (Value (Node resp))
             # deliver_loop taskCallback tid receiver)"

definition deliver ::
  "(uint64 \<Rightarrow> string \<Rightarrow> event) \<Rightarrow> uint64 \<Rightarrow> response option \<Rightarrow> response list \<Rightarrow> event list" where
  "deliver taskCallback tid resp receiver =
     (case resp of
        None \<Rightarrow> []
      | Some r \<Rightarrow> [LogPrint ''hehe task'', taskCallback tid (Value (Node r))])
     @ deliver_loop taskCallback tid receiver"

text \<open>
  One iteration of the loop over \<open>taskIDs\<close>: choose path and callback by role (any role
  but parent and child panics), read the baseline, choose the index the watch starts
  from, start the watch and the delivering goroutine. The result is the stop channel
  of the neighbour, or how the process was brought down.
\<close>

definition watchAll_body ::
  "'w env \<Rightarrow> framework \<Rightarrow> taskRole \<Rightarrow> 'w \<Rightarrow> uint64 \<Rightarrow> (abort + chan) \<times> 'w \<times> act list" where
  "watchAll_body E f who w tid =
     (case (case who of
              roleParent \<Rightarrow> Some (MakeChildMetaPath E (name f) tid, ParentMetaReady)
            | roleChild \<Rightarrow> Some (MakeParentMetaPath E (name f) tid, ChildMetaReady)
            | roleNone \<Rightarrow> None) of
        None \<Rightarrow> (Inl GoPanic, w, [Do (Panic ''unimplemented'')])
      | Some (watchPath, taskCallback) \<Rightarrow>
          (case etcdGet E w watchPath False False of
             (got, w1) \<Rightarrow>
               (case (case got of
                        Inl err \<Rightarrow> if \<not> IsKeyNotFound E err then None else Some (1, None)
                      | Inr resp \<Rightarrow> Some (EtcdIndex resp + 1, Some resp)) of
                  None \<Rightarrow>
                    (Inl FatalExit, w1,
                     [Do (EtcdGet watchPath False False got), Do (Fatalf ''etcd get failed'')])
                | Some (watchIndex, resp) \<Rightarrow>
                    (Inr (make_chan 1), w1,
                     [Do (EtcdGet watchPath False False got),
                      Do (GoWatch watchPath watchIndex),
                      Go (deliver taskCallback tid resp (etcdWatch E watchPath watchIndex))]))))"

fun watchAll_loop ::
  "'w env \<Rightarrow> framework \<Rightarrow> taskRole \<Rightarrow> 'w \<Rightarrow> uint64 list \<Rightarrow> (abort + chan list) \<times> 'w \<times> act list" where
  "watchAll_loop E f who w [] = (Inr [], w, [])"
| "watchAll_loop E f who w (tid # taskIDs) =
     (case watchAll_body E f who w tid of
        (Inl a, w1, acts) \<Rightarrow> (Inl a, w1, acts)
      | (Inr stop, w1, acts) \<Rightarrow>
          (case watchAll_loop E f who w1 taskIDs of
             (Inl a, w2, acts') \<Rightarrow> (Inl a, w2, acts @ acts')
           | (Inr stops', w2, acts') \<Rightarrow> (Inr (stop # stops'), w2, acts @ acts')))"

definition watchAll ::
  "'w env \<Rightarrow> framework \<Rightarrow> taskRole \<Rightarrow> 'w \<Rightarrow> uint64 list \<Rightarrow> (abort + framework) \<times> 'w \<times> act list" where
  "watchAll E f who w taskIDs =
     (case watchAll_loop E f who w taskIDs of
        (Inl a, w', acts) \<Rightarrow> (Inl a, w', acts)
      | (Inr stops', w', acts) \<Rightarrow> (Inr (f\<lparr>stops := stops f @ stops'\<rparr>), w', acts))"

section \<open>framework/bootstrap.go: Start\<close>

text \<open>
  The loop \<^verbatim>\<open>for f.epoch = range f.epochChan\<close> over the values received.
\<close>

fun Start_loop :: "framework \<Rightarrow> uint64 list \<Rightarrow> framework \<times> act list" where
  "Start_loop f [] = (f, [])"
| "Start_loop f (e # es) =
     (case Start_loop (f\<lparr>epoch := e\<rparr>) es of
        (f', acts) \<Rightarrow> (f', Do (SetEpoch e) # acts))"

text \<open>
  \<^verbatim>\<open>startHTTP\<close>, run as a goroutine: a log line, the call of \<^verbatim>\<open>http.Serve\<close>, and
  \<^verbatim>\<open>log.Fatalf\<close> when that returns an error.
\<close>

definition startHTTP :: "'w env \<Rightarrow> framework \<Rightarrow> 'w \<Rightarrow> event list" where
  "startHTTP E f w =
     [LogPrint ''serving http'', HttpServe (httpServe E w)] @
     (case httpServe E w of
        None \<Rightarrow> []
      | Some err \<Rightarrow> [Fatalf ''http.Serve() returns error''])"

text \<open>
  \<^verbatim>\<open>Start\<close> from \<^verbatim>\<open>go f.startHTTP()\<close> to its return; the deferred
  \<^verbatim>\<open>releaseResources\<close> runs when the loop has ended.
\<close>

definition Start_run :: "'w env \<Rightarrow> framework \<Rightarrow> 'w \<Rightarrow> framework \<times> act list" where
  "Start_run E f w =
     (case Start_loop (f\<lparr>dataRespChan := Some (make_chan 100)\<rparr>) (epochUpdates E w) of
        (f', acts) \<Rightarrow>
          (f', [Go (startHTTP E f w), Do GoDataResponseReceiver,
                Do (LogPrint ''Start the work''), Do (SetEpoch (epoch f))]
               @ acts @ [Do ReleaseResources]))"

text \<open>The two calls of \<^verbatim>\<open>watchAll\<close>, then the rest.\<close>

definition Start_watches ::
  "'w env \<Rightarrow> framework \<Rightarrow> 'w \<Rightarrow> abort option \<times> framework \<times> 'w \<times> act list" where
  "Start_watches E f w =
     (case watchAll E f roleParent w (GetParents E (taskID f) (epoch f)) of
        (Inl a, w1, acts) \<Rightarrow> (Some a, f, w1, acts)
      | (Inr f1, w1, acts) \<Rightarrow>
          (case watchAll E f1 roleChild w1 (GetChildren E (taskID f1) (epoch f1)) of
             (Inl a, w2, acts') \<Rightarrow> (Some a, f1, w2, acts @ acts')
           | (Inr f2, w2, acts') \<Rightarrow>
               (case Start_run E f2 w2 of
                  (f3, acts'') \<Rightarrow> (None, f3, w2, acts @ acts' @ acts''))))"

text \<open>From \<^verbatim>\<open>f.epochChan = make(chan uint64, 1)\<close> on.\<close>

definition Start_epoch ::
  "'w env \<Rightarrow> framework \<Rightarrow> 'w \<Rightarrow> abort option \<times> framework \<times> 'w \<times> act list" where
  "Start_epoch E f w =
     (case GetAndWatchEpoch E w (name f) of
        (Inl (e, err), w1) \<Rightarrow>
          (Some FatalExit, f\<lparr>epochChan := Some (make_chan 1), epoch := e\<rparr>, w1,
           [Do (EvGetAndWatchEpoch (name f) (Inl err)), Do (Fatalf ''WatchEpoch failed'')])
      | (Inr e, w1) \<Rightarrow>
          (case Start_watches E (f\<lparr>epochChan := Some (make_chan 1), epoch := e\<rparr>) w1 of
             (out, f', w2, acts) \<Rightarrow>
               (out, f', w2,
                [Do (EvGetAndWatchEpoch (name f) (Inr e)), Do GoHeartbeat,
                 Do GoDetectAndReportFailures] @ acts)))"

text \<open>
  \<^verbatim>\<open>Start\<close>. \<^verbatim>\<open>f.taskID\<close> is assigned what \<^verbatim>\<open>occupyTask\<close> returns, also when it returns an
  error; then \<^verbatim>\<open>standby\<close> is called, and its error is fatal. The result is how the
  goroutine that runs \<^verbatim>\<open>Start\<close> brought the process down (\<open>None\<close> when it reaches its
  return), the framework and the store afterwards, and the steps taken. The logger is
  not part of the state, so the choice of the default logger is left out.
\<close>

definition Start ::
  "'w env \<Rightarrow> framework \<Rightarrow> 'w \<Rightarrow> abort option \<times> framework \<times> 'w \<times> act list" where
  "Start E f w =
     (case occupyTask E f w of
        ((taskid, err), w1, tr) \<Rightarrow>
          (case (case err of
                   None \<Rightarrow> (None, w1, [])
                 | Some e \<Rightarrow> (case standby E w1 of (serr, w2) \<Rightarrow> (serr, w2, [EvStandby serr]))) of
             (Some serr, w2, tr') \<Rightarrow>
               (Some FatalExit, f\<lparr>taskID := taskid\<rparr>, w2,
                map Do (NewClient # tr @ tr' @ [Fatalf ''occupyTask failed'']))
           | (None, w2, tr') \<Rightarrow>
               (case Start_epoch E (f\<lparr>taskID := taskid\<rparr>) w2 of
                  (out, f', w3, acts) \<Rightarrow>
                    (out, f', w3,
                     map Do (NewClient # tr @ tr' @
                             [GetTask taskid, SetTaskID taskid, TaskInit taskid]) @ acts))))"

section \<open>Runs\<close>

text \<open>
  The goroutines run concurrently. A linearisation of the steps of \<^verbatim>\<open>Start\<close> keeps the
  order of the events of each goroutine and lets a goroutine's events begin only after
  the \<^verbatim>\<open>go\<close> statement that starts it. \<^verbatim>\<open>log.Fatalf\<close> and \<^verbatim>\<open>panic\<close> end the process, so an
  observed run is a linearisation cut after its first such event.
\<close>

fun linearisations :: "act list \<Rightarrow> event list set" where
  "linearisations [] = {[]}"
| "linearisations (Do e # as) = (#) e ` linearisations as"
| "linearisations (Go body # as) = (\<Union>t \<in> linearisations as. shuffles body t)"

fun ends_process :: "event \<Rightarrow> bool" where
  "ends_process (Fatalf m) = True"
| "ends_process (Panic m) = True"
| "ends_process e = False"

fun until_exit :: "event list \<Rightarrow> event list" where
  "until_exit [] = []"
| "until_exit (e # es) = (if ends_process e then [e] else e # until_exit es)"

definition runs :: "act list \<Rightarrow> event list set" where
  "runs acts = until_exit ` linearisations acts"

section \<open>Reading traces\<close>

text \<open>The claim attempts in a trace: the ID tried and whether the claim succeeded.\<close>

fun attempt_of :: "event \<Rightarrow> (uint64 \<times> bool) option" where
  "attempt_of (EvTryOccupyTask n i a ok) = Some (i, ok)"
| "attempt_of e = None"

definition attempts :: "event list \<Rightarrow> (uint64 \<times> bool) list" where
  "attempts tr = List.map_filter attempt_of tr"

text \<open>
  An entry of the task directory is numeric when the base of its key parses; \<open>slot_ids\<close>
  are the IDs of the numeric entries of a listing, in listed order.
\<close>

definition numeric :: "'w env \<Rightarrow> node \<Rightarrow> bool" where
  "numeric E s = (ParseUint E (path_Base E (Key s)) \<noteq> None)"

definition slot_ids :: "'w env \<Rightarrow> node list \<Rightarrow> uint64 list" where
  "slot_ids E ss = map (\<lambda>s. the (ParseUint E (path_Base E (Key s)))) (filter (numeric E) ss)"

definition corrupted :: event where
  "corrupted = LogWarn ''taskID isn't integer, registration on etcd has been corrupted!''"

text \<open>
  The baseline reads, the watches started and the delivering goroutines started in a
  list of steps, each in the order of the steps.
\<close>

fun read_of :: "act \<Rightarrow> (string \<times> (error + response)) option" where
  "read_of (Do (EtcdGet p False False got)) = Some (p, got)"
| "read_of a = None"

fun watch_of :: "act \<Rightarrow> (string \<times> uint64) option" where
  "watch_of (Do (GoWatch p i)) = Some (p, i)"
| "watch_of a = None"

fun goroutine_of :: "act \<Rightarrow> event list option" where
  "goroutine_of (Go body) = Some body"
| "goroutine_of a = None"

definition baseline_reads :: "act list \<Rightarrow> (string \<times> (error + response)) list" where
  "baseline_reads acts = List.map_filter read_of acts"

definition watches_started :: "act list \<Rightarrow> (string \<times> uint64) list" where
  "watches_started acts = List.map_filter watch_of acts"

definition goroutines :: "act list \<Rightarrow> event list list" where
  "goroutines acts = List.map_filter goroutine_of acts"

text \<open>
  What the specification says of one neighbour, by role: the key watched (a parent's
  child-metadata key, a child's parent-metadata key) and the callback used; and of one
  baseline read: whether the node survives it, the index the watch starts from and the
  baseline it yields.
\<close>

definition neighbor_path :: "'w env \<Rightarrow> framework \<Rightarrow> taskRole \<Rightarrow> uint64 \<Rightarrow> string" where
  "neighbor_path E f who tid =
     (if who = roleChild then MakeParentMetaPath E (name f) tid
      else MakeChildMetaPath E (name f) tid)"

definition neighbor_callback :: "taskRole \<Rightarrow> uint64 \<Rightarrow> string \<Rightarrow> event" where
  "neighbor_callback who = (if who = roleChild then ChildMetaReady else ParentMetaReady)"

definition nonfatal :: "'w env \<Rightarrow> error + response \<Rightarrow> bool" where
  "nonfatal E got = (case got of Inl err \<Rightarrow> IsKeyNotFound E err | Inr resp \<Rightarrow> True)"

definition start_index :: "error + response \<Rightarrow> uint64" where
  "start_index got = (case got of Inl err \<Rightarrow> 1 | Inr resp \<Rightarrow> EtcdIndex resp + 1)"

definition baseline :: "error + response \<Rightarrow> response option" where
  "baseline got = (case got of Inl err \<Rightarrow> None | Inr resp \<Rightarrow> Some resp)"

text \<open>The metadata handed to the task in a trace, and the epochs handed to it.\<close>

fun is_meta :: "event \<Rightarrow> bool" where
  "is_meta (ParentMetaReady i m) = True"
| "is_meta (ChildMetaReady i m) = True"
| "is_meta e = False"

definition deliveries :: "event list \<Rightarrow> event list" where
  "deliveries tr = filter is_meta tr"

text \<open>The metadata of one neighbour among the events handed to the task.\<close>

fun meta_from :: "uint64 \<Rightarrow> event \<Rightarrow> bool" where
  "meta_from tid (ParentMetaReady i m) = (i = tid)"
| "meta_from tid (ChildMetaReady i m) = (i = tid)"
| "meta_from tid e = False"

fun epoch_of :: "event \<Rightarrow> uint64 option" where
  "epoch_of (SetEpoch e) = Some e"
| "epoch_of e = None"

definition epochs_set :: "event list \<Rightarrow> uint64 list" where
  "epochs_set tr = List.map_filter epoch_of tr"

text \<open>All events of a list of steps, those of the goroutines included.\<close>

fun events_of :: "act list \<Rightarrow> event list" where
  "events_of [] = []"
| "events_of (Do e # as) = e # events_of as"
| "events_of (Go body # as) = body @ events_of as"

text \<open>
  Three kinds of events: those of slot acquisition, the call of \<^verbatim>\<open>Task.Init\<close>, and
  those that need an initialised task or come with the later stages (the epoch fetch,
  the establishment of the neighbour watches, the start of the data server, and the
  callbacks \<^verbatim>\<open>SetEpoch\<close>, \<^verbatim>\<open>ParentMetaReady\<close>, \<^verbatim>\<open>ChildMetaReady\<close>).
\<close>

fun slot_acquisition :: "event \<Rightarrow> bool" where
  "slot_acquisition (EtcdGet p True True got) = True"
| "slot_acquisition (EvTryOccupyTask n i a ok) = True"
| "slot_acquisition (EvStandby serr) = True"
| "slot_acquisition (LogWarn m) = True"
| "slot_acquisition e = False"

fun is_Init :: "event \<Rightarrow> bool" where
  "is_Init (TaskInit i) = True"
| "is_Init e = False"

fun later_stage :: "event \<Rightarrow> bool" where
  "later_stage (EvGetAndWatchEpoch n r) = True"
| "later_stage (EtcdGet p False False got) = True"
| "later_stage (GoWatch p i) = True"
| "later_stage (HttpServe r) = True"
| "later_stage (SetEpoch e) = True"
| "later_stage (ParentMetaReady i m) = True"
| "later_stage (ChildMetaReady i m) = True"
| "later_stage e = False"

text \<open>
  The steps the specification asks of \<^verbatim>\<open>watchAll\<close> for one neighbour, given what the
  baseline read returned: the read; then either the fatal log line, or the start of the
  watch from the chosen index and of the delivering goroutine with the baseline.
\<close>

definition neighbor_steps ::
  "'w env \<Rightarrow> framework \<Rightarrow> taskRole \<Rightarrow> uint64 \<Rightarrow> error + response \<Rightarrow> act list" where
  "neighbor_steps E f who tid got =
     Do (EtcdGet (neighbor_path E f who tid) False False got) #
     (if nonfatal E got
      then [Do (GoWatch (neighbor_path E f who tid) (start_index got)),
            Go (deliver (neighbor_callback who) tid (baseline got)
                  (etcdWatch E (neighbor_path E f who tid) (start_index got)))]
      else [Do (Fatalf ''etcd get failed'')])"

text \<open>
  The events of the goroutine that runs \<^verbatim>\<open>Start\<close> alone, and the kinds of events that
  \<^verbatim>\<open>watchAll\<close> and its goroutines can produce.
\<close>

fun main_events :: "act list \<Rightarrow> event list" where
  "main_events [] = []"
| "main_events (Do e # as) = e # main_events as"
| "main_events (Go body # as) = main_events as"

fun watch_event :: "event \<Rightarrow> bool" where
  "watch_event (EtcdGet p False False got) = True"
| "watch_event (GoWatch p i) = True"
| "watch_event (Fatalf m) = True"
| "watch_event (Panic m) = True"
| "watch_event (LogPrint m) = True"
| "watch_event (ParentMetaReady i m) = True"
| "watch_event (ChildMetaReady i m) = True"
| "watch_event e = False"

text \<open>
  Slot acquisition leaves the process running when \<^verbatim>\<open>occupyTask\<close> returns no error, or
  when after its error \<^verbatim>\<open>standby\<close> returns none.
\<close>

definition slot_acquired :: "'w env \<Rightarrow> framework \<Rightarrow> 'w \<Rightarrow> bool" where
  "slot_acquired E f w =
     (case occupyTask E f w of
        ((taskid, err), w1, tr) \<Rightarrow> err = None \<or> fst (standby E w1) = None)"

text \<open>
  What the store answers, independently of what the node makes of it. \<open>claim_answers\<close>
  threads the store through a claim on each of the given IDs in order, made with the
  job's name and this node's address: the ID, the answer and the store afterwards.
  \<open>store_answers\<close> threads it through a read of the key of each of the given neighbours
  in order: the neighbour, the answer and the store afterwards. \<open>upto_first P xs\<close> is
  \<open>xs\<close> up to and including its first element that satisfies \<open>P\<close>.
\<close>

fun claim_answers ::
  "'w env \<Rightarrow> framework \<Rightarrow> 'w \<Rightarrow> uint64 list \<Rightarrow> (uint64 \<times> bool \<times> 'w) list" where
  "claim_answers E f w [] = []"
| "claim_answers E f w (i # ids) =
     (case TryOccupyTask E w (name f) i (addr f) of
        (ok, w1) \<Rightarrow> (i, ok, w1) # claim_answers E f w1 ids)"

fun store_answers ::
  "'w env \<Rightarrow> framework \<Rightarrow> taskRole \<Rightarrow> 'w \<Rightarrow> uint64 list
     \<Rightarrow> (uint64 \<times> (error + response) \<times> 'w) list" where
  "store_answers E f who w [] = []"
| "store_answers E f who w (tid # taskIDs) =
     (case etcdGet E w (neighbor_path E f who tid) False False of
        (got, w1) \<Rightarrow> (tid, got, w1) # store_answers E f who w1 taskIDs)"

fun upto_first :: "('a \<Rightarrow> bool) \<Rightarrow> 'a list \<Rightarrow> 'a list" where
  "upto_first P [] = []"
| "upto_first P (x # xs) = (if P x then [x] else x # upto_first P xs)"

section \<open>A sample job\<close>

text \<open>
  A job \<^verbatim>\<open>job\<close> with three slots and one stray entry in its task directory. The state of
  the world is the list of slots already claimed. Task 1 has parent 0 and child 2;
  parent 0 has published its metadata, child 2 will publish the same value twice.
\<close>

definition sample_digit :: "uint64 \<Rightarrow> char" where
  "sample_digit i =
     (if i = 0 then CHR ''0'' else if i = 1 then CHR ''1'' else if i = 2 then CHR ''2''
      else CHR ''9'')"

definition sample_Base :: "string \<Rightarrow> string" where
  "sample_Base p =
     (let q = rev (dropWhile (\<lambda>c. c = CHR ''/'') (rev p)) in
      if p = [] then ''.''
      else if q = [] then ''/''
      else rev (takeWhile (\<lambda>c. c \<noteq> CHR ''/'') (rev q)))"

definition sample_ParseUint :: "string \<Rightarrow> uint64 option" where
  "sample_ParseUint s =
     (if s = ''0'' then Some 0 else if s = ''1'' then Some 1 else if s = ''2'' then Some 2
      else None)"

definition sample_listing :: response where
  "sample_listing =
     \<lparr>Action = ''get'',
      Node = EtcdNode ''/job/tasks'' []
               [EtcdNode ''/job/tasks/0'' ''10.0.0.7:9000'' [],
                EtcdNode ''/job/tasks/lost'' [] [],
                EtcdNode ''/job/tasks/1'' [] [],
                EtcdNode ''/job/tasks/2'' [] []],
      EtcdIndex = 5\<rparr>"

definition sample_meta :: "string \<Rightarrow> string \<Rightarrow> string \<Rightarrow> uint64 \<Rightarrow> response" where
  "sample_meta a k v i = \<lparr>Action = a, Node = EtcdNode k v [], EtcdIndex = i\<rparr>"

definition sample_Get ::
  "uint64 list \<Rightarrow> string \<Rightarrow> bool \<Rightarrow> bool \<Rightarrow> (error + response) \<times> uint64 list" where
  "sample_Get w key srt rcs =
     (if key = ''/job/tasks'' then (Inr sample_listing, w)
      else if key = ''/job/tasks/0/ChildMeta''
           then (Inr (sample_meta ''get'' key ''m0'' 7), w)
      else (Inl (EtcdError 100 ''Key not found''), w))"

definition sample_Watch :: "string \<Rightarrow> uint64 \<Rightarrow> response list" where
  "sample_Watch key i =
     (if key = ''/job/tasks/0/ChildMeta''
      then [sample_meta ''set'' key ''m1'' 9, sample_meta ''delete'' key [] 12]
      else [sample_meta ''set'' key ''ready'' 10, sample_meta ''set'' key ''ready'' 11])"

definition sample_env :: "uint64 list env" where
  "sample_env =
     \<lparr>etcdGet = sample_Get,
      etcdWatch = sample_Watch,
      TryOccupyTask = (\<lambda>w n i a. if i \<in> set w then (False, w) else (True, i # w)),
      GetAndWatchEpoch = (\<lambda>w n. (Inr 0, w)),
      epochUpdates = (\<lambda>w. [1, 2]),
      standby = (\<lambda>w. (Some (Errorf ''unimplemented''), w)),
      httpServe = (\<lambda>w. None),
      IsKeyNotFound = (\<lambda>e. case e of EtcdError c m \<Rightarrow> c = 100 | _ \<Rightarrow> False),
      MakeTaskDirPath = (\<lambda>n. ''/'' @ n @ ''/tasks''),
      MakeChildMetaPath = (\<lambda>n i. ''/'' @ n @ ''/tasks/'' @ [sample_digit i] @ ''/ChildMeta''),
      MakeParentMetaPath = (\<lambda>n i. ''/'' @ n @ ''/tasks/'' @ [sample_digit i] @ ''/ParentMeta''),
      path_Base = sample_Base,
      ParseUint = sample_ParseUint,
      GetParents = (\<lambda>i e. if i = 1 then [0] else []),
      GetChildren = (\<lambda>i e. if i = 1 then [2] else [])\<rparr>"

definition sample_framework :: framework where
  "sample_framework =
     \<lparr>name = ''job'', addr = ''10.0.0.1:9000'', taskID = 0, epoch = 0,
      epochChan = None, dataRespChan = None, stops = []\<rparr>"

text \<open>The sample job with a store that fails on the metadata key of task 2.\<close>

definition sample_env_failing :: "uint64 list env" where
  "sample_env_failing =
     sample_env\<lparr>etcdGet := (\<lambda>w key srt rcs.
        if key = ''/job/tasks/2/ChildMeta'' then (Inl (EtcdError 300 ''Raft Internal Error''), w)
        else sample_Get w key srt rcs)\<rparr>"

text \<open>
  The steps of \<^verbatim>\<open>watchAll\<close> in the sample job for the neighbours 0 and 2 watched as
  parents.
\<close>

definition sample_watch_steps :: "act list" where
  "sample_watch_steps =
     [Do (EtcdGet ''/job/tasks/0/ChildMeta'' False False
            (Inr (sample_meta ''get'' ''/job/tasks/0/ChildMeta'' ''m0'' 7))),
      Do (GoWatch ''/job/tasks/0/ChildMeta'' 8),
      Go [LogPrint ''hehe task'', ParentMetaReady 0 ''m0'',
          LogPrint ''task'', ParentMetaReady 0 ''m1''],
      Do (EtcdGet ''/job/tasks/2/ChildMeta'' False False
            (Inl (EtcdError 100 ''Key not found''))),
      Do (GoWatch ''/job/tasks/2/ChildMeta'' 1),
      Go [LogPrint ''task'', ParentMetaReady 2 ''ready'',
          LogPrint ''task'', ParentMetaReady 2 ''ready'']]"

text \<open>
  The steps of \<^verbatim>\<open>Start\<close> in the sample job when slot 0 is taken, and its trace when
  all three slots are taken.
\<close>

definition sample_Start_steps :: "act list" where
  "sample_Start_steps =
     [Do NewClient,
      Do (EtcdGet ''/job/tasks'' True True (Inr sample_listing)),
      Do (EvTryOccupyTask ''job'' 0 ''10.0.0.1:9000'' False),
      Do corrupted,
      Do (EvTryOccupyTask ''job'' 1 ''10.0.0.1:9000'' True),
      Do (GetTask 1), Do (SetTaskID 1), Do (TaskInit 1),
      Do (EvGetAndWatchEpoch ''job'' (Inr 0)),
      Do GoHeartbeat, Do GoDetectAndReportFailures,
      Do (EtcdGet ''/job/tasks/0/ChildMeta'' False False
            (Inr (sample_meta ''get'' ''/job/tasks/0/ChildMeta'' ''m0'' 7))),
      Do (GoWatch ''/job/tasks/0/ChildMeta'' 8),
      Go [LogPrint ''hehe task'', ParentMetaReady 0 ''m0'',
          LogPrint ''task'', ParentMetaReady 0 ''m1''],
      Do (EtcdGet ''/job/tasks/2/ParentMeta'' False False
            (Inl (EtcdError 100 ''Key not found''))),
      Do (GoWatch ''/job/tasks/2/ParentMeta'' 1),
      Go [LogPrint ''task'', ChildMetaReady 2 ''ready'',
          LogPrint ''task'', ChildMetaReady 2 ''ready''],
      Go [LogPrint ''serving http'', HttpServe None],
      Do GoDataResponseReceiver, Do (LogPrint ''Start the work''),
      Do (SetEpoch 0), Do (SetEpoch 1), Do (SetEpoch 2), Do ReleaseResources]"

definition sample_fatal_trace :: "event list" where
  "sample_fatal_trace =
     [NewClient,
      EtcdGet ''/job/tasks'' True True (Inr sample_listing),
      EvTryOccupyTask ''job'' 0 ''10.0.0.1:9000'' False,
      corrupted,
      EvTryOccupyTask ''job'' 1 ''10.0.0.1:9000'' False,
      EvTryOccupyTask ''job'' 2 ''10.0.0.1:9000'' False,
      EvStandby (Some (Errorf ''unimplemented'')),
      Fatalf ''occupyTask failed'']"





section \<open>Properties of store/s3.go\<close>

lemma S3File_Write_result:
  "S3File_Write s3f S p = ((length p, None), s3f\<lparr>buf := buf s3f @ p\<rparr>, S)"
  by (simp add: S3File_Write_def Buffer_Write_def)

lemma S3File_Writes_result:
  "S3File_Writes s3f S ps = (s3f\<lparr>buf := buf s3f @ concat ps\<rparr>, S)"
  by (induction ps arbitrary: s3f) (simp_all add: S3File_Write_result)

text \<open>
  Claim C10. Any sequence of \<^verbatim>\<open>Write\<close> calls leaves the object store exactly as it was
  (no object changes, no request is sent) and only extends the buffer by the written
  bytes in order. A following \<^verbatim>\<open>Sync\<close> sends exactly one put request; it carries the
  whole buffer (the contents before the writes followed by everything written) to the
  file's key, and when the request succeeds the object stored under that key is that
  byte sequence.
\<close>

theorem S3File_writes_then_sync:
  "S3File_Writes s3f S ps = (s3f\<lparr>buf := buf s3f @ concat ps\<rparr>, S) \<and>
   S3File_Sync outcome (fst (S3File_Writes s3f S ps)) (snd (S3File_Writes s3f S ps)) =
     (outcome, s3f\<lparr>buf := buf s3f @ concat ps\<rparr>,
      S\<lparr>put_log := put_log S @
            [\<lparr>put_bucket = Bucket s3f, put_path = keyPath s3f,
              put_data = buf s3f @ concat ps,
              put_contType = ''binary'', put_perm = BucketOwnerFull\<rparr>],
        objects := (if outcome = None
                    then (objects S)((Bucket s3f, keyPath s3f) \<mapsto> buf s3f @ concat ps)
                    else objects S)\<rparr>)"
  by (cases outcome)
     (simp_all add: S3File_Writes_result S3File_Sync_def Bucket_Put_def Buffer_Bytes_def)

section \<open>Properties of occupyTask\<close>

lemma occupyTask_loop_Cons_skip:
  "ParseUint E (path_Base E (Key s)) = None \<Longrightarrow>
   occupyTask_loop E f w (s # ss) =
     (case occupyTask_loop E f w ss of (r, w', tr) \<Rightarrow> (r, w', corrupted # tr))"
  by (simp add: corrupted_def)

lemma occupyTask_loop_Cons_try:
  "ParseUint E (path_Base E (Key s)) = Some i \<Longrightarrow>
   TryOccupyTask E w (name f) i (addr f) = (ok, w1) \<Longrightarrow>
   occupyTask_loop E f w (s # ss) =
     (if ok then ((i, None), w1, [EvTryOccupyTask (name f) i (addr f) True])
      else (case occupyTask_loop E f w1 ss of
              (r, w', tr) \<Rightarrow> (r, w', EvTryOccupyTask (name f) i (addr f) False # tr)))"
  by simp

lemma slot_ids_Cons:
  "slot_ids E (s # ss) =
     (case ParseUint E (path_Base E (Key s)) of
        None \<Rightarrow> slot_ids E ss
      | Some i \<Rightarrow> i # slot_ids E ss)"
  by (simp add: slot_ids_def numeric_def split: option.splits)

lemma attempts_simps [simp]:
  "attempts [] = []"
  "attempts (corrupted # tr) = attempts tr"
  "attempts (EvTryOccupyTask n i a ok # tr) = (i, ok) # attempts tr"
  "attempts (EtcdGet p s r got # tr) = attempts tr"
  by (simp_all add: attempts_def corrupted_def)

lemma occupyTask_listed:
  "etcdGet E w (MakeTaskDirPath E (name f)) True True = (Inr slots, w1) \<Longrightarrow>
   occupyTask E f w = (r, w', tr) \<Longrightarrow>
   \<exists>tr'. tr = EtcdGet (MakeTaskDirPath E (name f)) True True (Inr slots) # tr' \<and>
         occupyTask_loop E f w1 (Nodes (Node slots)) = (r, w', tr')"
  by (auto simp: occupyTask_def split: prod.splits)


lemma sample_dir:
  "etcdGet sample_env w (MakeTaskDirPath sample_env (name sample_framework)) True True =
     (Inr sample_listing, w)"
  by (simp add: sample_env_def sample_framework_def sample_Get_def)


lemma sample_slot_ids: "slot_ids sample_env (Nodes (Node sample_listing)) = [0, 1, 2]"
  by code_simp

lemma occupyTask_loop_answers:
  "occupyTask_loop E f w ss = ((taskid, err), w', tr) \<Longrightarrow>
   attempts tr =
     map (\<lambda>(i, ok, v). (i, ok))
       (upto_first (\<lambda>(i, ok, v). ok) (claim_answers E f w (slot_ids E ss))) \<and>
   (case dropWhile (\<lambda>(i, ok, v). \<not> ok) (claim_answers E f w (slot_ids E ss)) of
      [] \<Rightarrow>
        taskid = 0 \<and> err = Some (Errorf ''no unassigned task found'') \<and>
        w' = last (w # map (\<lambda>(i, ok, v). v) (claim_answers E f w (slot_ids E ss)))
    | (i, ok, v) # rest \<Rightarrow> taskid = i \<and> err = None \<and> w' = v)"
proof (induction ss arbitrary: w tr)
  case Nil
  then show ?case by (auto simp: slot_ids_def)
next
  case (Cons s ss)
  show ?case
  proof (cases "ParseUint E (path_Base E (Key s))")
    case None
    with Cons.prems obtain tr2 where l: "occupyTask_loop E f w ss = ((taskid, err), w', tr2)"
      and tr: "tr = corrupted # tr2"
      by (auto simp: occupyTask_loop_Cons_skip simp del: occupyTask_loop.simps split: prod.splits)
    have eq: "slot_ids E (s # ss) = slot_ids E ss" by (simp add: slot_ids_Cons None)
    from Cons.IH[OF l] show ?thesis unfolding eq tr by simp
  next
    case (Some i)
    obtain ok w1 where t: "TryOccupyTask E w (name f) i (addr f) = (ok, w1)" by force
    have ca: "claim_answers E f w (slot_ids E (s # ss)) =
        (i, ok, w1) # claim_answers E f w1 (slot_ids E ss)"
      by (simp add: slot_ids_Cons Some t)
    show ?thesis
    proof (cases ok)
      case True
      with Cons.prems have "taskid = i" "err = None" "w' = w1"
        "tr = [EvTryOccupyTask (name f) i (addr f) True]"
        by (auto simp: occupyTask_loop_Cons_try[OF Some t] simp del: occupyTask_loop.simps)
      with True show ?thesis unfolding ca by simp
    next
      case False
      with Cons.prems obtain tr2 where l: "occupyTask_loop E f w1 ss = ((taskid, err), w', tr2)"
        and tr: "tr = EvTryOccupyTask (name f) i (addr f) False # tr2"
        by (auto simp: occupyTask_loop_Cons_try[OF Some t] simp del: occupyTask_loop.simps
            split: prod.splits)
      define A where "A = claim_answers E f w1 (slot_ids E ss)"
      define D where "D = dropWhile (\<lambda>(i, ok, v). \<not> ok) A"
      have dw: "dropWhile (\<lambda>(i, ok, v). \<not> ok) ((i, ok, w1) # A) = D"
        using False by (simp add: D_def)
      have lst: "last (w # map (\<lambda>(i, ok, v). v) ((i, ok, w1) # A)) =
          last (w1 # map (\<lambda>(i, ok, v). v) A)"
        by simp
      from Cons.IH[OF l] have ih:
        "attempts tr2 = map (\<lambda>(i, ok, v). (i, ok)) (upto_first (\<lambda>(i, ok, v). ok) A)"
        "case D of
           [] \<Rightarrow> taskid = 0 \<and> err = Some (Errorf ''no unassigned task found'') \<and>
                 w' = last (w1 # map (\<lambda>(i, ok, v). v) A)
         | (i, ok, v) # rest \<Rightarrow> taskid = i \<and> err = None \<and> w' = v"
        unfolding A_def D_def by blast+
      from ih(1) False have
        "attempts tr = map (\<lambda>(i, ok, v). (i, ok))
           (upto_first (\<lambda>(i, ok, v). ok) ((i, ok, w1) # A))"
        by (simp add: tr)
      moreover from ih(2) have
        "case D of
           [] \<Rightarrow> taskid = 0 \<and> err = Some (Errorf ''no unassigned task found'') \<and>
                 w' = last (w # map (\<lambda>(i, ok, v). v) ((i, ok, w1) # A))
         | (i, ok, v) # rest \<Rightarrow> taskid = i \<and> err = None \<and> w' = v"
        unfolding lst .
      ultimately show ?thesis
        unfolding ca A_def[symmetric] dw by blast
    qed
  qed
qed

text \<open>
  Claim C5. When the task directory has been listed, \<^verbatim>\<open>occupyTask\<close> makes its claims on
  the IDs of the listed entries (those whose key is numeric) in listed order, each on
  the store as the claim before left it, and what the trace shows of each claim is the
  answer the store gave. It makes
  them up to and including the first claim that the store grants. If the store grants
  one, \<^verbatim>\<open>occupyTask\<close> returns the ID of the first claim granted and no error, and the
  store is as that claim left it. If the store grants none, every listed ID has been
  tried, and \<^verbatim>\<open>occupyTask\<close> returns the error "no unassigned task found" with the ID 0.
\<close>

theorem occupyTask_first_successful_claim:
  assumes "etcdGet E w (MakeTaskDirPath E (name f)) True True = (Inr slots, w1)"
    and "occupyTask E f w = ((taskid, err), w', tr)"
  shows "attempts tr =
           map (\<lambda>(i, ok, v). (i, ok))
             (upto_first (\<lambda>(i, ok, v). ok)
                (claim_answers E f w1 (slot_ids E (Nodes (Node slots))))) \<and>
         (case dropWhile (\<lambda>(i, ok, v). \<not> ok)
                 (claim_answers E f w1 (slot_ids E (Nodes (Node slots)))) of
            [] \<Rightarrow>
              taskid = 0 \<and> err = Some (Errorf ''no unassigned task found'') \<and>
              w' = last (w1 # map (\<lambda>(i, ok, v). v)
                                (claim_answers E f w1 (slot_ids E (Nodes (Node slots)))))
          | (i, ok, v) # rest \<Rightarrow> taskid = i \<and> err = None \<and> w' = v)"
proof -
  from occupyTask_listed[OF assms] obtain tr' where
    tr: "tr = EtcdGet (MakeTaskDirPath E (name f)) True True (Inr slots) # tr'" and
    l: "occupyTask_loop E f w1 (Nodes (Node slots)) = ((taskid, err), w', tr')"
    by blast
  from occupyTask_loop_answers[OF l] show ?thesis by (simp add: tr)
qed

theorem occupyTask_first_successful_claim_witness:
  "claim_answers sample_env sample_framework [0] [0, 1, 2] =
     [(0, False, [0]), (1, True, [1, 0]), (2, True, [2, 1, 0])] \<and>
   fst (occupyTask sample_env sample_framework [0]) = (1, None) \<and>
   fst (snd (occupyTask sample_env sample_framework [0])) = [1, 0] \<and>
   attempts (snd (snd (occupyTask sample_env sample_framework [0]))) =
     [(0, False), (1, True)] \<and>
   claim_answers sample_env sample_framework [0, 1, 2] [0, 1, 2] =
     [(0, False, [0, 1, 2]), (1, False, [0, 1, 2]), (2, False, [0, 1, 2])] \<and>
   fst (occupyTask sample_env sample_framework [0, 1, 2]) =
     (0, Some (Errorf ''no unassigned task found'')) \<and>
   attempts (snd (snd (occupyTask sample_env sample_framework [0, 1, 2]))) =
     [(0, False), (1, False), (2, False)]"
proof -
  have a: "claim_answers sample_env sample_framework [0] [0, 1, 2] =
      [(0, False, [0]), (1, True, [1, 0]), (2, True, [2, 1, 0])]"
    "claim_answers sample_env sample_framework [0, 1, 2] [0, 1, 2] =
     [(0, False, [0, 1, 2]), (1, False, [0, 1, 2]), (2, False, [0, 1, 2])]"
    by code_simp+
  obtain i e v t where o: "occupyTask sample_env sample_framework [0] = ((i, e), v, t)"
    by (metis prod.exhaust)
  obtain i' e' v' t' where
    o': "occupyTask sample_env sample_framework [0, 1, 2] = ((i', e'), v', t')"
    by (metis prod.exhaust)
  from occupyTask_first_successful_claim[OF sample_dir o]
    occupyTask_first_successful_claim[OF sample_dir o']
  show ?thesis
    unfolding sample_slot_ids a o o' by simp
qed




section \<open>Properties of watchAll\<close>

lemma map_filter_append:
  "List.map_filter g (xs @ ys) = List.map_filter g xs @ List.map_filter g ys"
  by (simp add: map_filter_def)

lemma baseline_reads_append [simp]:
  "baseline_reads (xs @ ys) = baseline_reads xs @ baseline_reads ys"
  by (simp add: baseline_reads_def map_filter_append)

lemma watches_started_append [simp]:
  "watches_started (xs @ ys) = watches_started xs @ watches_started ys"
  by (simp add: watches_started_def map_filter_append)

lemma goroutines_append [simp]:
  "goroutines (xs @ ys) = goroutines xs @ goroutines ys"
  by (simp add: goroutines_def map_filter_append)

lemma neighbor_steps_reads [simp]:
  "baseline_reads (neighbor_steps E f who tid got) = [(neighbor_path E f who tid, got)]"
  by (simp add: neighbor_steps_def baseline_reads_def)

lemma neighbor_steps_watches [simp]:
  "watches_started (neighbor_steps E f who tid got) =
     (if nonfatal E got then [(neighbor_path E f who tid, start_index got)] else [])"
  by (simp add: neighbor_steps_def watches_started_def)

lemma neighbor_steps_goroutines [simp]:
  "goroutines (neighbor_steps E f who tid got) =
     (if nonfatal E got
      then [deliver (neighbor_callback who) tid (baseline got)
              (etcdWatch E (neighbor_path E f who tid) (start_index got))]
      else [])"
  by (simp add: neighbor_steps_def goroutines_def)

lemma neighbor_steps_fatal:
  "\<not> nonfatal E got \<Longrightarrow>
   \<exists>err. \<not> IsKeyNotFound E err \<and>
     neighbor_steps E f who tid got =
       [Do (EtcdGet (neighbor_path E f who tid) False False (Inl err)),
        Do (Fatalf ''etcd get failed'')]"
  by (cases got) (simp_all add: neighbor_steps_def nonfatal_def)

lemma watchAll_body_steps:
  "who \<noteq> roleNone \<Longrightarrow>
   etcdGet E w (neighbor_path E f who tid) False False = (got, w1) \<Longrightarrow>
   watchAll_body E f who w tid =
     (if nonfatal E got then Inr (make_chan 1) else Inl FatalExit, w1,
      neighbor_steps E f who tid got)"
  by (cases who; cases got)
     (auto simp: watchAll_body_def neighbor_steps_def neighbor_path_def neighbor_callback_def
        nonfatal_def start_index_def baseline_def)

lemma watchAll_loop_roleNone:
  "watchAll_loop E f roleNone w taskIDs =
     (case taskIDs of
        [] \<Rightarrow> (Inr [], w, [])
      | tid # rest \<Rightarrow> (Inl GoPanic, w, [Do (Panic ''unimplemented'')]))"
  by (cases taskIDs) (simp_all add: watchAll_body_def)

lemma watchAll_loop_Cons:
  "who \<noteq> roleNone \<Longrightarrow>
   etcdGet E w (neighbor_path E f who tid) False False = (got, w1) \<Longrightarrow>
   watchAll_loop E f who w (tid # taskIDs) =
     (if nonfatal E got
      then (case watchAll_loop E f who w1 taskIDs of
              (out, w2, acts) \<Rightarrow>
                (map_sum id ((#) (make_chan 1)) out, w2, neighbor_steps E f who tid got @ acts))
      else (Inl FatalExit, w1, neighbor_steps E f who tid got))"
  by (auto simp: watchAll_body_steps split: prod.splits sum.splits)

text \<open>
  The steps, the result and the store of \<^verbatim>\<open>watchAll\<close> against the answers of the store:
  proved once, by induction on the neighbours, and used for each claim about
  \<^verbatim>\<open>watchAll\<close>.
\<close>

lemma watchAll_loop_answers:
  assumes "who \<noteq> roleNone"
    and "watchAll_loop E f who w taskIDs = (out, w', acts)"
  shows "acts = concat (map (\<lambda>(tid, got, v). neighbor_steps E f who tid got)
                   (upto_first (\<lambda>(tid, got, v). \<not> nonfatal E got)
                      (store_answers E f who w taskIDs))) \<and>
         out = (if list_all (\<lambda>(tid, got, v). nonfatal E got) (store_answers E f who w taskIDs)
                then Inr (replicate (length taskIDs) (make_chan 1)) else Inl FatalExit) \<and>
         w' = last (w # map (\<lambda>(tid, got, v). v)
                        (upto_first (\<lambda>(tid, got, v). \<not> nonfatal E got)
                           (store_answers E f who w taskIDs)))"
  using assms(2)
proof (induction taskIDs arbitrary: w out acts)
  case Nil
  then show ?case by auto
next
  case (Cons tid taskIDs)
  obtain got w1 where g: "etcdGet E w (neighbor_path E f who tid) False False = (got, w1)"
    by force
  have sa: "store_answers E f who w (tid # taskIDs) =
      (tid, got, w1) # store_answers E f who w1 taskIDs"
    by (simp add: g)
  show ?case
  proof (cases "nonfatal E got")
    case False
    with Cons.prems have "out = Inl FatalExit" "acts = neighbor_steps E f who tid got" "w' = w1"
      by (simp_all add: watchAll_loop_Cons[OF assms(1) g] del: watchAll_loop.simps)
    with False show ?thesis unfolding sa by simp
  next
    case True
    with Cons.prems obtain out2 acts2 where
      l: "watchAll_loop E f who w1 taskIDs = (out2, w', acts2)" and
      out: "out = map_sum id ((#) (make_chan 1)) out2" and
      acts: "acts = neighbor_steps E f who tid got @ acts2"
      by (auto simp: watchAll_loop_Cons[OF assms(1) g] simp del: watchAll_loop.simps
          split: prod.splits)
    define A where "A = store_answers E f who w1 taskIDs"
    define U where "U = upto_first (\<lambda>(tid, got, v). \<not> nonfatal E got) A"
    from Cons.IH[OF l] have ih:
      "acts2 = concat (map (\<lambda>(tid, got, v). neighbor_steps E f who tid got) U)"
      "out2 = (if list_all (\<lambda>(tid, got, v). nonfatal E got) A
               then Inr (replicate (length taskIDs) (make_chan 1)) else Inl FatalExit)"
      "w' = last (w1 # map (\<lambda>(tid, got, v). v) U)"
      unfolding A_def U_def by blast+
    have u: "upto_first (\<lambda>(tid, got, v). \<not> nonfatal E got) ((tid, got, w1) # A) =
        (tid, got, w1) # U"
      using True by (simp add: U_def)
    have lst: "last (w # map (\<lambda>(tid, got, v). v) ((tid, got, w1) # U)) =
        last (w1 # map (\<lambda>(tid, got, v). v) U)"
      by simp
    have "acts = concat (map (\<lambda>(tid, got, v). neighbor_steps E f who tid got)
                     ((tid, got, w1) # U))"
      by (simp add: acts ih(1))
    moreover have "out = (if list_all (\<lambda>(tid, got, v). nonfatal E got) ((tid, got, w1) # A)
                then Inr (replicate (length (tid # taskIDs)) (make_chan 1)) else Inl FatalExit)"
      using True by (simp add: out ih(2))
    moreover have "w' = last (w # map (\<lambda>(tid, got, v). v) ((tid, got, w1) # U))"
      unfolding lst by (rule ih(3))
    ultimately show ?thesis unfolding sa A_def[symmetric] u by blast
  qed
qed

lemma store_answers_neighbours [simp]:
  "map fst (store_answers E f who w taskIDs) = taskIDs"
  by (induction taskIDs arbitrary: w) (auto split: prod.splits)

lemma length_store_answers [simp]:
  "length (store_answers E f who w taskIDs) = length taskIDs"
  by (induction taskIDs arbitrary: w) (auto split: prod.splits)

lemma reads_of_steps:
  "baseline_reads (concat (map (\<lambda>(tid, got, v). neighbor_steps E f who tid got) U)) =
     map (\<lambda>(tid, got, v). (neighbor_path E f who tid, got)) U"
  by (induction U) (auto simp: baseline_reads_def[of "[]"])

lemma watches_of_steps:
  "watches_started (concat (map (\<lambda>(tid, got, v). neighbor_steps E f who tid got)
       (upto_first (\<lambda>(tid, got, v). \<not> nonfatal E got) A))) =
     map (\<lambda>(tid, got, v). (neighbor_path E f who tid, start_index got))
       (takeWhile (\<lambda>(tid, got, v). nonfatal E got) A)"
  by (induction A) (auto simp: watches_started_def[of "[]"])

lemma goroutines_of_steps:
  "goroutines (concat (map (\<lambda>(tid, got, v). neighbor_steps E f who tid got)
       (upto_first (\<lambda>(tid, got, v). \<not> nonfatal E got) A))) =
     map (\<lambda>(tid, got, v). deliver (neighbor_callback who) tid (baseline got)
                             (etcdWatch E (neighbor_path E f who tid) (start_index got)))
       (takeWhile (\<lambda>(tid, got, v). nonfatal E got) A)"
  by (induction A) (auto simp: goroutines_def[of "[]"])

lemma steps_end_fatal:
  "\<not> list_all (\<lambda>(tid, got, v). nonfatal E got) A \<Longrightarrow>
   \<exists>pre tid err. \<not> IsKeyNotFound E err \<and> tid \<in> fst ` set A \<and>
     concat (map (\<lambda>(tid, got, v). neighbor_steps E f who tid got)
       (upto_first (\<lambda>(tid, got, v). \<not> nonfatal E got) A)) =
     pre @ [Do (EtcdGet (neighbor_path E f who tid) False False (Inl err)),
            Do (Fatalf ''etcd get failed'')]"
proof (induction A)
  case Nil
  then show ?case by simp
next
  case (Cons a A)
  obtain tid got v where a: "a = (tid, got, v)" by (cases a) auto
  show ?case
  proof (cases "nonfatal E got")
    case False
    from neighbor_steps_fatal[OF False, of f who tid] obtain err where
      "\<not> IsKeyNotFound E err"
      "neighbor_steps E f who tid got =
         [] @ [Do (EtcdGet (neighbor_path E f who tid) False False (Inl err)),
               Do (Fatalf ''etcd get failed'')]"
      by auto
    with False show ?thesis unfolding a by (auto intro!: exI[of _ "[]"] exI[of _ tid])
  next
    case True
    with Cons.prems have "\<not> list_all (\<lambda>(tid, got, v). nonfatal E got) A" by (simp add: a)
    from Cons.IH[OF this] obtain pre t err where
      "\<not> IsKeyNotFound E err" "t \<in> fst ` set A"
      "concat (map (\<lambda>(tid, got, v). neighbor_steps E f who tid got)
         (upto_first (\<lambda>(tid, got, v). \<not> nonfatal E got) A)) =
       pre @ [Do (EtcdGet (neighbor_path E f who t) False False (Inl err)),
              Do (Fatalf ''etcd get failed'')]"
      by blast
    with True show ?thesis unfolding a
      by (auto intro!: exI[of _ "neighbor_steps E f who tid got @ pre"] exI[of _ t] exI[of _ err])
  qed
qed

lemma watchAll_loop_of_role:
  assumes "who = roleParent \<or> who = roleChild"
    and "watchAll E f who w taskIDs = (out, w', acts)"
  shows "\<exists>out'. watchAll_loop E f who w taskIDs = (out', w', acts) \<and>
           who \<noteq> roleNone \<and>
           out = map_sum id (\<lambda>ss. f\<lparr>stops := stops f @ ss\<rparr>) out'"
  using assms by (auto simp: watchAll_def split: prod.splits sum.splits)

lemma watchAll_answers:
  assumes "who = roleParent \<or> who = roleChild"
    and "watchAll E f who w taskIDs = (out, w', acts)"
  shows "acts = concat (map (\<lambda>(tid, got, v). neighbor_steps E f who tid got)
                   (upto_first (\<lambda>(tid, got, v). \<not> nonfatal E got)
                      (store_answers E f who w taskIDs)))"
    and "out = (if list_all (\<lambda>(tid, got, v). nonfatal E got) (store_answers E f who w taskIDs)
                then Inr (f\<lparr>stops := stops f @ replicate (length taskIDs) (make_chan 1)\<rparr>)
                else Inl FatalExit)"
    and "w' = last (w # map (\<lambda>(tid, got, v). v)
                        (upto_first (\<lambda>(tid, got, v). \<not> nonfatal E got)
                           (store_answers E f who w taskIDs)))"
proof -
  from watchAll_loop_of_role[OF assms] obtain out' where
    l: "watchAll_loop E f who w taskIDs = (out', w', acts)" and
    n: "who \<noteq> roleNone" and
    o: "out = map_sum id (\<lambda>ss. f\<lparr>stops := stops f @ ss\<rparr>) out'"
    by blast
  from watchAll_loop_answers[OF n l]
  show "acts = concat (map (\<lambda>(tid, got, v). neighbor_steps E f who tid got)
                   (upto_first (\<lambda>(tid, got, v). \<not> nonfatal E got)
                      (store_answers E f who w taskIDs)))"
    and "w' = last (w # map (\<lambda>(tid, got, v). v)
                        (upto_first (\<lambda>(tid, got, v). \<not> nonfatal E got)
                           (store_answers E f who w taskIDs)))"
    by blast+
  from watchAll_loop_answers[OF n l]
  have "out' = (if list_all (\<lambda>(tid, got, v). nonfatal E got) (store_answers E f who w taskIDs)
                then Inr (replicate (length taskIDs) (make_chan 1)) else Inl FatalExit)"
    by blast
  then show "out = (if list_all (\<lambda>(tid, got, v). nonfatal E got)
                         (store_answers E f who w taskIDs)
                then Inr (f\<lparr>stops := stops f @ replicate (length taskIDs) (make_chan 1)\<rparr>)
                else Inl FatalExit)"
    by (simp add: o)
qed

lemma takeWhile_all: "list_all P xs \<Longrightarrow> takeWhile P xs = xs"
  by (induction xs) simp_all

lemma answer_cases:
  "nonfatal E = (\<lambda>got. case got of Inl err \<Rightarrow> IsKeyNotFound E err | Inr resp \<Rightarrow> True)"
  "start_index = (\<lambda>got. case got of Inl err \<Rightarrow> 1 | Inr resp \<Rightarrow> EtcdIndex resp + 1)"
  "baseline = (\<lambda>got. case got of Inl err \<Rightarrow> None | Inr resp \<Rightarrow> Some resp)"
  by (simp_all add: fun_eq_iff start_index_def nonfatal_def baseline_def)

lemma not_surviving:
  "(\<not> (case got of Inl err \<Rightarrow> IsKeyNotFound E err | Inr resp \<Rightarrow> True)) =
   (case got of Inl err \<Rightarrow> \<not> IsKeyNotFound E err | Inr resp \<Rightarrow> False)"
  for got :: "error + response"
  by (cases got) simp_all

lemma list_all_fatal:
  "(\<not> list_all (\<lambda>(tid, got, v). nonfatal E got) A) =
   (\<exists>(tid, got, v) \<in> set A. \<not> nonfatal E got)"
  by (induction A) auto

lemma deliveries_deliver_loop:
  "(\<And>i m. is_meta (cb i m)) \<Longrightarrow>
   deliveries (deliver_loop cb tid receiver) =
     map (\<lambda>r. cb tid (Value (Node r))) (filter (\<lambda>r. Action r = ''set'') receiver)"
  by (induction receiver) (simp_all add: deliveries_def)

lemma deliveries_deliver:
  "(\<And>i m. is_meta (cb i m)) \<Longrightarrow>
   deliveries (deliver cb tid resp receiver) =
     map (cb tid)
       ((case resp of None \<Rightarrow> [] | Some r \<Rightarrow> [Value (Node r)])
        @ map (\<lambda>r. Value (Node r)) (filter (\<lambda>r. Action r = ''set'') receiver))"
  using deliveries_deliver_loop[of cb tid receiver]
  by (cases resp) (simp_all add: deliver_def deliveries_def)

lemma is_meta_neighbor_callback [simp]: "is_meta (neighbor_callback who i m)"
  by (simp add: neighbor_callback_def)

lemma sample_watchAll:
  "watchAll sample_env sample_framework roleParent [1, 0] [0, 2] =
     (Inr (sample_framework\<lparr>stops := [make_chan 1, make_chan 1]\<rparr>), [1, 0], sample_watch_steps)"
  by code_simp

text \<open>
  Claim C3. Called for parents or for children, \<^verbatim>\<open>watchAll\<close> does not panic. Its baseline
  reads are the answers of the store to the reads of the neighbours' keys, made in the
  order of \<open>taskIDs\<close>, each on the store as the read before left it, up to and including
  the first read that ends the process (an error other than key-not-found). The
  watches it starts are, in that order, one for each neighbour before that read, on the
  neighbour's key: from index 1 when the store answered the read with the key-not-found
  error, from the \<^verbatim>\<open>EtcdIndex\<close> of the response plus one when it answered with a
  response. \<^verbatim>\<open>watchAll\<close> returns exactly when no read ends the process, and then a watch
  has been started on the key of every neighbour.
\<close>

theorem watchAll_watch_index:
  assumes "who = roleParent \<or> who = roleChild"
    and "watchAll E f who w taskIDs = (out, w', acts)"
  shows "baseline_reads acts =
           map (\<lambda>(tid, got, v). (neighbor_path E f who tid, got))
             (upto_first
                (\<lambda>(tid, got, v). case got of Inl err \<Rightarrow> \<not> IsKeyNotFound E err | Inr resp \<Rightarrow> False)
                (store_answers E f who w taskIDs)) \<and>
         watches_started acts =
           map (\<lambda>(tid, got, v).
                  (neighbor_path E f who tid,
                   case got of Inl err \<Rightarrow> 1 | Inr resp \<Rightarrow> EtcdIndex resp + 1))
             (takeWhile
                (\<lambda>(tid, got, v). case got of Inl err \<Rightarrow> IsKeyNotFound E err | Inr resp \<Rightarrow> True)
                (store_answers E f who w taskIDs)) \<and>
         out \<noteq> Inl GoPanic \<and>
         (\<exists>f'. out = Inr f') =
           list_all
             (\<lambda>(tid, got, v). case got of Inl err \<Rightarrow> IsKeyNotFound E err | Inr resp \<Rightarrow> True)
             (store_answers E f who w taskIDs) \<and>
         ((\<exists>f'. out = Inr f') \<longrightarrow>
            map fst (watches_started acts) = map (neighbor_path E f who) taskIDs)"
proof -
  note a = watchAll_answers[OF assms]
  have r: "baseline_reads acts =
      map (\<lambda>(tid, got, v). (neighbor_path E f who tid, got))
        (upto_first (\<lambda>(tid, got, v). \<not> nonfatal E got) (store_answers E f who w taskIDs))"
    unfolding a(1) by (rule reads_of_steps)
  have s: "watches_started acts =
      map (\<lambda>(tid, got, v). (neighbor_path E f who tid, start_index got))
        (takeWhile (\<lambda>(tid, got, v). nonfatal E got) (store_answers E f who w taskIDs))"
    unfolding a(1) by (rule watches_of_steps)
  have p: "out \<noteq> Inl GoPanic"
    by (simp add: a(2))
  have o: "(\<exists>f'. out = Inr f') =
      list_all (\<lambda>(tid, got, v). nonfatal E got) (store_answers E f who w taskIDs)"
    by (simp add: a(2))
  have "map fst (watches_started acts) = map (neighbor_path E f who) taskIDs"
    if "\<exists>f'. out = Inr f'"
  proof -
    from that o have
      "list_all (\<lambda>(tid, got, v). nonfatal E got) (store_answers E f who w taskIDs)"
      by simp
    from takeWhile_all[OF this] have tw:
      "takeWhile (\<lambda>(tid, got, v). nonfatal E got) (store_answers E f who w taskIDs) =
       store_answers E f who w taskIDs" .
    have "map fst (watches_started acts) =
        map (neighbor_path E f who) (map fst (store_answers E f who w taskIDs))"
      unfolding s tw by (simp add: case_prod_unfold comp_def del: store_answers_neighbours)
    then show ?thesis by simp
  qed
  with r s p o show ?thesis
    unfolding answer_cases not_surviving by blast
qed

theorem watchAll_watch_index_witness:
  "store_answers sample_env sample_framework roleParent [1, 0] [0, 2] =
     [(0, Inr (sample_meta ''get'' ''/job/tasks/0/ChildMeta'' ''m0'' 7), [1, 0]),
      (2, Inl (EtcdError 100 ''Key not found''), [1, 0])] \<and>
   EtcdIndex (sample_meta ''get'' ''/job/tasks/0/ChildMeta'' ''m0'' 7) = 7 \<and>
   IsKeyNotFound sample_env (EtcdError 100 ''Key not found'') \<and>
   baseline_reads (snd (snd (watchAll sample_env sample_framework roleParent [1, 0] [0, 2]))) =
     [(''/job/tasks/0/ChildMeta'', Inr (sample_meta ''get'' ''/job/tasks/0/ChildMeta'' ''m0'' 7)),
      (''/job/tasks/2/ChildMeta'', Inl (EtcdError 100 ''Key not found''))] \<and>
   watches_started (snd (snd (watchAll sample_env sample_framework roleParent [1, 0] [0, 2]))) =
     [(''/job/tasks/0/ChildMeta'', 8), (''/job/tasks/2/ChildMeta'', 1)] \<and>
   (\<exists>f'. fst (watchAll sample_env sample_framework roleParent [1, 0] [0, 2]) = Inr f') \<and>
   store_answers sample_env_failing sample_framework roleParent [1, 0] [0, 2, 1] =
     [(0, Inr (sample_meta ''get'' ''/job/tasks/0/ChildMeta'' ''m0'' 7), [1, 0]),
      (2, Inl (EtcdError 300 ''Raft Internal Error''), [1, 0]),
      (1, Inl (EtcdError 100 ''Key not found''), [1, 0])] \<and>
   \<not> IsKeyNotFound sample_env_failing (EtcdError 300 ''Raft Internal Error'') \<and>
   baseline_reads
       (snd (snd (watchAll sample_env_failing sample_framework roleParent [1, 0] [0, 2, 1]))) =
     [(''/job/tasks/0/ChildMeta'', Inr (sample_meta ''get'' ''/job/tasks/0/ChildMeta'' ''m0'' 7)),
      (''/job/tasks/2/ChildMeta'', Inl (EtcdError 300 ''Raft Internal Error''))] \<and>
   watches_started
       (snd (snd (watchAll sample_env_failing sample_framework roleParent [1, 0] [0, 2, 1]))) =
     [(''/job/tasks/0/ChildMeta'', 8)] \<and>
   (\<nexists>f'. fst (watchAll sample_env_failing sample_framework roleParent [1, 0] [0, 2, 1]) = Inr f')"
proof -
  have a: "store_answers sample_env sample_framework roleParent [1, 0] [0, 2] =
     [(0, Inr (sample_meta ''get'' ''/job/tasks/0/ChildMeta'' ''m0'' 7), [1, 0]),
      (2, Inl (EtcdError 100 ''Key not found''), [1, 0])]"
    "store_answers sample_env_failing sample_framework roleParent [1, 0] [0, 2, 1] =
     [(0, Inr (sample_meta ''get'' ''/job/tasks/0/ChildMeta'' ''m0'' 7), [1, 0]),
      (2, Inl (EtcdError 300 ''Raft Internal Error''), [1, 0]),
      (1, Inl (EtcdError 100 ''Key not found''), [1, 0])]"
    by code_simp+
  have k: "IsKeyNotFound sample_env (EtcdError 100 ''Key not found'')"
    "\<not> IsKeyNotFound sample_env_failing (EtcdError 300 ''Raft Internal Error'')"
    by code_simp+
  have p: "neighbor_path sample_env sample_framework roleParent 0 = ''/job/tasks/0/ChildMeta''"
    "neighbor_path sample_env sample_framework roleParent 2 = ''/job/tasks/2/ChildMeta''"
    "neighbor_path sample_env_failing sample_framework roleParent 0 = ''/job/tasks/0/ChildMeta''"
    "neighbor_path sample_env_failing sample_framework roleParent 2 = ''/job/tasks/2/ChildMeta''"
    by code_simp+
  have i: "EtcdIndex (sample_meta ''get'' ''/job/tasks/0/ChildMeta'' ''m0'' 7) = 7"
    by (simp add: sample_meta_def)
  obtain out v acts where
    o: "watchAll sample_env sample_framework roleParent [1, 0] [0, 2] = (out, v, acts)"
    by (metis prod.exhaust)
  obtain out' v' acts' where
    o': "watchAll sample_env_failing sample_framework roleParent [1, 0] [0, 2, 1] =
      (out', v', acts')"
    by (metis prod.exhaust)
  from watchAll_watch_index[OF _ o] watchAll_watch_index[OF _ o']
  show ?thesis
    unfolding a o o' by (simp add: k p i)
qed

text \<open>
  Claim C7. Called for parents or for children, \<^verbatim>\<open>watchAll\<close> ends the process with
  \<^verbatim>\<open>log.Fatalf\<close> exactly when the store answers one of the baseline reads of the
  neighbours' keys, made in the order of \<open>taskIDs\<close>, with an error that is not the
  key-not-found error; otherwise it returns, with one more stop channel for each
  neighbour. Every neighbour is read up to and including the first such answer and none
  after it: the fatal log line directly follows that read and is the last step, and the
  store is left as that read left it. For every neighbour before it, an answer with the
  key-not-found error included, the goroutine of the neighbour is started, which for an
  error is started without a baseline and hands the task only what the watch from
  index 1 reports.
\<close>

theorem watchAll_baseline_read_errors:
  assumes "who = roleParent \<or> who = roleChild"
    and "watchAll E f who w taskIDs = (out, w', acts)"
  shows "(out = Inl FatalExit) =
           (\<exists>(tid, got, v) \<in> set (store_answers E f who w taskIDs).
              case got of Inl err \<Rightarrow> \<not> IsKeyNotFound E err | Inr resp \<Rightarrow> False) \<and>
         (out \<noteq> Inl FatalExit) =
           (out = Inr (f\<lparr>stops := stops f @ replicate (length taskIDs) (make_chan 1)\<rparr>)) \<and>
         baseline_reads acts =
           map (\<lambda>(tid, got, v). (neighbor_path E f who tid, got))
             (upto_first
                (\<lambda>(tid, got, v). case got of Inl err \<Rightarrow> \<not> IsKeyNotFound E err | Inr resp \<Rightarrow> False)
                (store_answers E f who w taskIDs)) \<and>
         w' = last (w # map (\<lambda>(tid, got, v). v)
                (upto_first
                   (\<lambda>(tid, got, v). case got of Inl err \<Rightarrow> \<not> IsKeyNotFound E err | Inr resp \<Rightarrow> False)
                   (store_answers E f who w taskIDs))) \<and>
         (out = Inl FatalExit \<longrightarrow>
            (\<exists>pre tid err. \<not> IsKeyNotFound E err \<and> tid \<in> set taskIDs \<and>
               acts = pre @ [Do (EtcdGet (neighbor_path E f who tid) False False (Inl err)),
                             Do (Fatalf ''etcd get failed'')])) \<and>
         goroutines acts =
           map (\<lambda>(tid, got, v).
                  deliver (neighbor_callback who) tid
                    (case got of Inl err \<Rightarrow> None | Inr resp \<Rightarrow> Some resp)
                    (etcdWatch E (neighbor_path E f who tid)
                       (case got of Inl err \<Rightarrow> 1 | Inr resp \<Rightarrow> EtcdIndex resp + 1)))
             (takeWhile
                (\<lambda>(tid, got, v). case got of Inl err \<Rightarrow> IsKeyNotFound E err | Inr resp \<Rightarrow> True)
                (store_answers E f who w taskIDs)) \<and>
         map deliveries (goroutines acts) =
           map (\<lambda>(tid, got, v).
                  map (neighbor_callback who tid)
                    (case got of
                       Inl err \<Rightarrow>
                         map (\<lambda>r. Value (Node r))
                           (filter (\<lambda>r. Action r = ''set'')
                              (etcdWatch E (neighbor_path E f who tid) 1))
                     | Inr resp \<Rightarrow>
                         Value (Node resp) #
                         map (\<lambda>r. Value (Node r))
                           (filter (\<lambda>r. Action r = ''set'')
                              (etcdWatch E (neighbor_path E f who tid) (EtcdIndex resp + 1)))))
             (takeWhile
                (\<lambda>(tid, got, v). case got of Inl err \<Rightarrow> IsKeyNotFound E err | Inr resp \<Rightarrow> True)
                (store_answers E f who w taskIDs))"
proof -
  note a = watchAll_answers[OF assms]
  have x: "(out = Inl FatalExit) =
      (\<exists>(tid, got, v) \<in> set (store_answers E f who w taskIDs). \<not> nonfatal E got)"
    unfolding list_all_fatal[symmetric] by (simp add: a(2))
  have y: "(out \<noteq> Inl FatalExit) =
      (out = Inr (f\<lparr>stops := stops f @ replicate (length taskIDs) (make_chan 1)\<rparr>))"
    by (simp add: a(2))
  have r: "baseline_reads acts =
      map (\<lambda>(tid, got, v). (neighbor_path E f who tid, got))
        (upto_first (\<lambda>(tid, got, v). \<not> nonfatal E got) (store_answers E f who w taskIDs))"
    unfolding a(1) by (rule reads_of_steps)
  have e: "\<exists>pre tid err. \<not> IsKeyNotFound E err \<and> tid \<in> set taskIDs \<and>
      acts = pre @ [Do (EtcdGet (neighbor_path E f who tid) False False (Inl err)),
                    Do (Fatalf ''etcd get failed'')]"
    if "out = Inl FatalExit"
  proof -
    from that have
      "\<not> list_all (\<lambda>(tid, got, v). nonfatal E got) (store_answers E f who w taskIDs)"
      by (simp add: a(2) split: if_splits)
    from steps_end_fatal[OF this, of f who] show ?thesis
      unfolding a(1)[symmetric] set_map[symmetric] store_answers_neighbours .
  qed
  have g: "goroutines acts =
      map (\<lambda>(tid, got, v). deliver (neighbor_callback who) tid (baseline got)
                              (etcdWatch E (neighbor_path E f who tid) (start_index got)))
        (takeWhile (\<lambda>(tid, got, v). nonfatal E got) (store_answers E f who w taskIDs))"
    unfolding a(1) by (rule goroutines_of_steps)
  have d: "deliveries (deliver (neighbor_callback who) tid (baseline got)
                         (etcdWatch E p (start_index got))) =
      map (neighbor_callback who tid)
        (case got of
           Inl err \<Rightarrow>
             map (\<lambda>r. Value (Node r)) (filter (\<lambda>r. Action r = ''set'') (etcdWatch E p 1))
         | Inr resp \<Rightarrow>
             Value (Node resp) #
             map (\<lambda>r. Value (Node r))
               (filter (\<lambda>r. Action r = ''set'') (etcdWatch E p (EtcdIndex resp + 1))))"
    for tid p and got :: "error + response"
    by (cases got) (simp_all add: deliveries_deliver baseline_def start_index_def)
  have m: "map deliveries (goroutines acts) =
      map (\<lambda>(tid, got, v).
             map (neighbor_callback who tid)
               (case got of
                  Inl err \<Rightarrow>
                    map (\<lambda>r. Value (Node r))
                      (filter (\<lambda>r. Action r = ''set'')
                         (etcdWatch E (neighbor_path E f who tid) 1))
                | Inr resp \<Rightarrow>
                    Value (Node resp) #
                    map (\<lambda>r. Value (Node r))
                      (filter (\<lambda>r. Action r = ''set'')
                         (etcdWatch E (neighbor_path E f who tid) (EtcdIndex resp + 1)))))
        (takeWhile (\<lambda>(tid, got, v). nonfatal E got) (store_answers E f who w taskIDs))"
    unfolding g by (simp add: d case_prod_unfold comp_def)
  from x y r a(3) e g m show ?thesis
    unfolding answer_cases not_surviving by blast
qed

theorem watchAll_baseline_read_errors_witness:
  "store_answers sample_env_failing sample_framework roleParent [1, 0] [0, 2, 1] =
     [(0, Inr (sample_meta ''get'' ''/job/tasks/0/ChildMeta'' ''m0'' 7), [1, 0]),
      (2, Inl (EtcdError 300 ''Raft Internal Error''), [1, 0]),
      (1, Inl (EtcdError 100 ''Key not found''), [1, 0])] \<and>
   \<not> IsKeyNotFound sample_env_failing (EtcdError 300 ''Raft Internal Error'') \<and>
   fst (watchAll sample_env_failing sample_framework roleParent [1, 0] [0, 2, 1]) =
     Inl FatalExit \<and>
   baseline_reads
       (snd (snd (watchAll sample_env_failing sample_framework roleParent [1, 0] [0, 2, 1]))) =
     [(''/job/tasks/0/ChildMeta'', Inr (sample_meta ''get'' ''/job/tasks/0/ChildMeta'' ''m0'' 7)),
      (''/job/tasks/2/ChildMeta'', Inl (EtcdError 300 ''Raft Internal Error''))] \<and>
   (\<exists>pre tid err. \<not> IsKeyNotFound sample_env_failing err \<and>
      snd (snd (watchAll sample_env_failing sample_framework roleParent [1, 0] [0, 2, 1])) =
        pre @ [Do (EtcdGet (neighbor_path sample_env_failing sample_framework roleParent tid)
                     False False (Inl err)),
               Do (Fatalf ''etcd get failed'')]) \<and>
   length (goroutines
       (snd (snd (watchAll sample_env_failing sample_framework roleParent [1, 0] [0, 2, 1])))) =
     1 \<and>
   store_answers sample_env sample_framework roleParent [1, 0] [0, 2] =
     [(0, Inr (sample_meta ''get'' ''/job/tasks/0/ChildMeta'' ''m0'' 7), [1, 0]),
      (2, Inl (EtcdError 100 ''Key not found''), [1, 0])] \<and>
   IsKeyNotFound sample_env (EtcdError 100 ''Key not found'') \<and>
   fst (watchAll sample_env sample_framework roleParent [1, 0] [0, 2]) =
     Inr (sample_framework\<lparr>stops := [make_chan 1, make_chan 1]\<rparr>) \<and>
   goroutines (snd (snd (watchAll sample_env sample_framework roleParent [1, 0] [0, 2]))) =
     [deliver ParentMetaReady 0
        (Some (sample_meta ''get'' ''/job/tasks/0/ChildMeta'' ''m0'' 7))
        (etcdWatch sample_env ''/job/tasks/0/ChildMeta'' 8),
      deliver ParentMetaReady 2 None (etcdWatch sample_env ''/job/tasks/2/ChildMeta'' 1)] \<and>
   map deliveries
       (goroutines (snd (snd (watchAll sample_env sample_framework roleParent [1, 0] [0, 2])))) =
     [[ParentMetaReady 0 ''m0'', ParentMetaReady 0 ''m1''],
      [ParentMetaReady 2 ''ready'', ParentMetaReady 2 ''ready'']]"
proof -
  have a: "store_answers sample_env sample_framework roleParent [1, 0] [0, 2] =
     [(0, Inr (sample_meta ''get'' ''/job/tasks/0/ChildMeta'' ''m0'' 7), [1, 0]),
      (2, Inl (EtcdError 100 ''Key not found''), [1, 0])]"
    "store_answers sample_env_failing sample_framework roleParent [1, 0] [0, 2, 1] =
     [(0, Inr (sample_meta ''get'' ''/job/tasks/0/ChildMeta'' ''m0'' 7), [1, 0]),
      (2, Inl (EtcdError 300 ''Raft Internal Error''), [1, 0]),
      (1, Inl (EtcdError 100 ''Key not found''), [1, 0])]"
    by code_simp+
  have k: "IsKeyNotFound sample_env (EtcdError 100 ''Key not found'')"
    "\<not> IsKeyNotFound sample_env_failing (EtcdError 300 ''Raft Internal Error'')"
    by code_simp+
  have p: "neighbor_path sample_env sample_framework roleParent 0 = ''/job/tasks/0/ChildMeta''"
    "neighbor_path sample_env sample_framework roleParent 2 = ''/job/tasks/2/ChildMeta''"
    "neighbor_path sample_env_failing sample_framework roleParent 0 = ''/job/tasks/0/ChildMeta''"
    "neighbor_path sample_env_failing sample_framework roleParent 2 = ''/job/tasks/2/ChildMeta''"
    by code_simp+
  have i: "EtcdIndex (sample_meta ''get'' ''/job/tasks/0/ChildMeta'' ''m0'' 7) = 7"
    "Value (Node (sample_meta ''get'' ''/job/tasks/0/ChildMeta'' ''m0'' 7)) = ''m0''"
    "stops sample_framework = []"
    by (simp_all add: sample_meta_def sample_framework_def)
  have s: "filter (\<lambda>r. Action r = ''set'') (etcdWatch sample_env ''/job/tasks/0/ChildMeta'' 8) =
      [sample_meta ''set'' ''/job/tasks/0/ChildMeta'' ''m1'' 9]"
    "filter (\<lambda>r. Action r = ''set'') (etcdWatch sample_env ''/job/tasks/2/ChildMeta'' 1) =
      [sample_meta ''set'' ''/job/tasks/2/ChildMeta'' ''ready'' 10,
       sample_meta ''set'' ''/job/tasks/2/ChildMeta'' ''ready'' 11]"
    "Value (Node (sample_meta ''set'' ''/job/tasks/0/ChildMeta'' ''m1'' 9)) = ''m1''"
    "Value (Node (sample_meta ''set'' ''/job/tasks/2/ChildMeta'' ''ready'' 10)) = ''ready''"
    "Value (Node (sample_meta ''set'' ''/job/tasks/2/ChildMeta'' ''ready'' 11)) = ''ready''"
    "filter (\<lambda>r. Action r = ''set'')
       (etcdWatch sample_env_failing ''/job/tasks/0/ChildMeta'' 8) =
      [sample_meta ''set'' ''/job/tasks/0/ChildMeta'' ''m1'' 9]"
    by code_simp+
  obtain out v acts where
    o: "watchAll sample_env sample_framework roleParent [1, 0] [0, 2] = (out, v, acts)"
    by (metis prod.exhaust)
  obtain out' v' acts' where
    o': "watchAll sample_env_failing sample_framework roleParent [1, 0] [0, 2, 1] =
      (out', v', acts')"
    by (metis prod.exhaust)
  from watchAll_baseline_read_errors[OF _ o] watchAll_baseline_read_errors[OF _ o']
  show ?thesis
    unfolding a o o' by (auto simp: k p i s neighbor_callback_def)
qed

text \<open>
  Claim C1 fails on the code. In the sample job the metadata key of neighbour 2 does
  not exist at the baseline read and is then written twice with the same bytes; the
  watch reports two responses with action \<^verbatim>\<open>"set"\<close>, and the goroutine hands the value
  to the task once for each.
\<close>

theorem watchAll_delivers_rewritten_value_twice:
  "etcdWatch sample_env ''/job/tasks/2/ChildMeta'' 1 =
     [sample_meta ''set'' ''/job/tasks/2/ChildMeta'' ''ready'' 10,
      sample_meta ''set'' ''/job/tasks/2/ChildMeta'' ''ready'' 11] \<and>
   watchAll sample_env sample_framework roleParent [1, 0] [2] =
     (Inr (sample_framework\<lparr>stops := [make_chan 1]\<rparr>), [1, 0],
      [Do (EtcdGet ''/job/tasks/2/ChildMeta'' False False
             (Inl (EtcdError 100 ''Key not found''))),
       Do (GoWatch ''/job/tasks/2/ChildMeta'' 1),
       Go [LogPrint ''task'', ParentMetaReady 2 ''ready'',
           LogPrint ''task'', ParentMetaReady 2 ''ready'']])"
  by code_simp


section \<open>Properties of runs\<close>

lemma linearisations_map_Do_append:
  "linearisations (map Do tr @ as) = (\<lambda>t. tr @ t) ` linearisations as"
  by (induction tr) (auto simp: image_image)

lemma linearisations_map_Do: "linearisations (map Do tr) = {tr}"
  using linearisations_map_Do_append[of tr "[]"] by simp

lemma linearisations_events:
  "t \<in> linearisations as \<Longrightarrow> set t = set (events_of as)"
proof (induction as arbitrary: t rule: linearisations.induct)
  case 1
  then show ?case by simp
next
  case (2 e as)
  then show ?case by auto
next
  case (3 body as)
  then obtain t' where "t' \<in> linearisations as" "t \<in> shuffles body t'" by auto
  with 3 show ?case by (auto dest: set_shuffles)
qed

lemma append_in_shuffles: "xs @ ys \<in> shuffles xs ys"
  by (induction xs) (auto simp: Cons_in_shuffles_iff)

lemma events_of_linearisation: "events_of as \<in> linearisations as"
proof (induction as rule: linearisations.induct)
  case (3 body as)
  then show ?case using append_in_shuffles[of body "events_of as"] by auto
qed auto

lemma sequential_run: "until_exit (events_of as) \<in> runs as"
  by (simp add: runs_def events_of_linearisation)

lemma runs_map_Do: "runs (map Do tr) = {until_exit tr}"
  by (simp add: runs_def linearisations_map_Do)

lemma filter_shuffles_none:
  assumes "t \<in> shuffles xs ys" and "\<forall>x\<in>set xs. \<not> P x"
  shows "filter P t = filter P ys"
proof -
  from assms(1) have "filter P t \<in> filter P ` shuffles xs ys" by blast
  also have "\<dots> = shuffles (filter P xs) (filter P ys)" by (rule filter_shuffles)
  also from assms(2) have "filter P xs = []" by (simp add: filter_empty_conv)
  finally show ?thesis by simp
qed


lemma until_exit_append:
  "\<forall>e\<in>set pre. \<not> ends_process e \<Longrightarrow> until_exit (pre @ t) = pre @ until_exit t"
  by (induction pre) simp_all

lemma until_exit_id: "\<forall>e\<in>set t. \<not> ends_process e \<Longrightarrow> until_exit t = t"
  using until_exit_append[of t "[]"] by simp

lemma set_until_exit: "set (until_exit t) \<subseteq> set t"
  by (induction t) auto



lemma events_of_append [simp]: "events_of (xs @ ys) = events_of xs @ events_of ys"
  by (induction xs rule: events_of.induct) simp_all

lemma main_events_append [simp]: "main_events (xs @ ys) = main_events xs @ main_events ys"
  by (induction xs rule: main_events.induct) simp_all

lemma events_of_map_Do [simp]: "events_of (map Do tr) = tr"
  by (induction tr) simp_all

lemma main_events_map_Do [simp]: "main_events (map Do tr) = tr"
  by (induction tr) simp_all

lemma epochs_set_append [simp]: "epochs_set (xs @ ys) = epochs_set xs @ epochs_set ys"
  by (simp add: epochs_set_def map_filter_append)

lemma epochs_set_SetEpochs [simp]: "epochs_set (map SetEpoch es) = es"
  by (induction es) (simp_all add: epochs_set_def)



section \<open>Properties of the runs of watchAll\<close>

lemma meta_from_neighbor_callback [simp]:
  "meta_from tid (neighbor_callback who i m) = (i = tid)"
  by (simp add: neighbor_callback_def)

lemma deliver_loop_meta_from:
  "filter (meta_from tid) (deliver_loop (neighbor_callback who) i receiver) =
     (if i = tid then deliveries (deliver_loop (neighbor_callback who) i receiver) else [])"
  by (induction receiver) (auto simp: deliveries_def)

lemma deliver_meta_from:
  "filter (meta_from tid) (deliver (neighbor_callback who) i resp receiver) =
     (if i = tid then deliveries (deliver (neighbor_callback who) i resp receiver) else [])"
  by (cases resp) (simp_all add: deliver_def deliver_loop_meta_from deliveries_def)

lemma neighbor_steps_meta_from:
  "filter (meta_from tid) (events_of (neighbor_steps E f who i got)) =
     (if i = tid \<and> nonfatal E got
      then deliveries (deliver (neighbor_callback who) i (baseline got)
                         (etcdWatch E (neighbor_path E f who i) (start_index got)))
      else [])"
  by (simp add: neighbor_steps_def deliver_meta_from)

lemma answers_steps_meta_from:
  "tid \<notin> fst ` set U \<Longrightarrow>
   filter (meta_from tid)
     (events_of (concat (map (\<lambda>(tid, got, v). neighbor_steps E f who tid got) U))) = []"
  by (induction U) (auto simp: neighbor_steps_meta_from)

lemma set_upto_first: "set (upto_first P xs) \<subseteq> set xs"
  by (induction xs) auto

lemma filter_linearisation_none:
  assumes "t \<in> linearisations as" and "filter P (events_of as) = []"
  shows "filter P t = []"
  using linearisations_events[OF assms(1)] assms(2)
  by (simp add: filter_empty_conv)

lemma filter_shuffles_left:
  assumes "t \<in> shuffles xs ys" and "filter P ys = []"
  shows "filter P t = filter P xs"
proof -
  from assms(1) have "filter P t \<in> filter P ` shuffles xs ys" by blast
  also have "\<dots> = shuffles (filter P xs) (filter P ys)" by (rule filter_shuffles)
  finally show ?thesis by (simp add: assms(2))
qed

lemma steps_run_neighbour:
  assumes "t \<in> linearisations
             (concat (map (\<lambda>(tid, got, v). neighbor_steps E f who tid got)
                (upto_first (\<lambda>(tid, got, v). \<not> nonfatal E got) A)))"
    and "distinct (map fst A)"
    and "i < length (takeWhile (\<lambda>(tid, got, v). nonfatal E got) A)"
  shows "filter (meta_from (map fst A ! i)) t =
         deliveries
           (goroutines
              (concat (map (\<lambda>(tid, got, v). neighbor_steps E f who tid got)
                 (upto_first (\<lambda>(tid, got, v). \<not> nonfatal E got) A))) ! i)"
  using assms
proof (induction A arbitrary: t i)
  case Nil
  then show ?case by simp
next
  case (Cons a A)
  obtain tid got v where a: "a = (tid, got, v)" by (cases a) auto
  from Cons.prems(3) have nf: "nonfatal E got"
    by (auto simp: a split: if_splits)
  define g where "g = deliver (neighbor_callback who) tid (baseline got)
                        (etcdWatch E (neighbor_path E f who tid) (start_index got))"
  define rest where "rest = concat (map (\<lambda>(tid, got, v). neighbor_steps E f who tid got)
                (upto_first (\<lambda>(tid, got, v). \<not> nonfatal E got) A))"
  have st: "concat (map (\<lambda>(tid, got, v). neighbor_steps E f who tid got)
                (upto_first (\<lambda>(tid, got, v). \<not> nonfatal E got) (a # A))) =
      Do (EtcdGet (neighbor_path E f who tid) False False got) #
      Do (GoWatch (neighbor_path E f who tid) (start_index got)) # Go g # rest"
    using nf by (simp add: a neighbor_steps_def g_def rest_def)
  from Cons.prems(1) obtain t' t2 where
    t: "t = EtcdGet (neighbor_path E f who tid) False False got #
            GoWatch (neighbor_path E f who tid) (start_index got) # t2" and
    t2: "t2 \<in> shuffles g t'" and t': "t' \<in> linearisations rest"
    unfolding st by auto
  have gs: "goroutines (Do (EtcdGet (neighbor_path E f who tid) False False got) #
      Do (GoWatch (neighbor_path E f who tid) (start_index got)) # Go g # rest) =
      g # goroutines rest"
    by (simp add: goroutines_def)
  from Cons.prems(2) have d: "tid \<notin> fst ` set A" "distinct (map fst A)"
    by (simp_all add: a)
  show ?case
  proof (cases i)
    case 0
    from d(1) set_upto_first[of "\<lambda>(tid, got, v). \<not> nonfatal E got" A]
    have "tid \<notin> fst ` set (upto_first (\<lambda>(tid, got, v). \<not> nonfatal E got) A)"
      by blast
    from answers_steps_meta_from[OF this, of E f who]
    have "filter (meta_from tid) (events_of rest) = []"
      by (simp add: rest_def)
    from filter_linearisation_none[OF t' this] have "filter (meta_from tid) t' = []" .
    from filter_shuffles_left[OF t2 this] have "filter (meta_from tid) t2 = filter (meta_from tid) g" .
    also have "\<dots> = deliveries g"
      by (simp add: g_def deliver_meta_from)
    finally show ?thesis
      unfolding st gs by (simp add: 0 a t)
  next
    case (Suc j)
    with Cons.prems(3) nf have j: "j < length (takeWhile (\<lambda>(tid, got, v). nonfatal E got) A)"
      by (simp add: a)
    then have "j < length A"
      using length_takeWhile_le[of "\<lambda>(tid, got, v). nonfatal E got" A] by simp
    then have "map fst A ! j \<in> fst ` set A"
      by (metis length_map nth_mem set_map)
    with d(1) have ne: "tid \<noteq> map fst A ! j" by blast
    have "filter (meta_from (map fst A ! j)) g = []"
      using ne by (simp add: g_def deliver_meta_from)
    then have "\<forall>x\<in>set g. \<not> meta_from (map fst A ! j) x"
      by (simp add: filter_empty_conv)
    from filter_shuffles_none[OF t2 this]
    have "filter (meta_from (map fst A ! j)) t2 = filter (meta_from (map fst A ! j)) t'" .
    also from Cons.IH[OF t'[unfolded rest_def] d(2) j]
    have "filter (meta_from (map fst A ! j)) t' = deliveries (goroutines rest ! j)"
      by (simp add: rest_def)
    finally show ?thesis
      unfolding st gs by (simp add: Suc a t)
  qed
qed

lemma until_exit_initial:
  "\<exists>r. until_exit t @ r = t \<and> ((\<forall>e\<in>set (until_exit t). \<not> ends_process e) \<longrightarrow> r = [])"
  by (induction t) auto

lemma watchAll_runs:
  assumes "who = roleParent \<or> who = roleChild"
    and "watchAll E f who w taskIDs = (out, w', acts)"
    and "distinct taskIDs"
    and "t \<in> runs acts"
    and "i < length (goroutines acts)"
  shows "\<exists>rest. filter (meta_from (taskIDs ! i)) t @ rest = deliveries (goroutines acts ! i) \<and>
           ((\<forall>e\<in>set t. \<not> ends_process e) \<longrightarrow> rest = [])"
proof -
  note a = watchAll_answers[OF assms(1,2)]
  from assms(4) obtain l where l: "l \<in> linearisations acts" and t: "t = until_exit l"
    by (auto simp: runs_def)
  have d: "distinct (map fst (store_answers E f who w taskIDs))"
    using assms(3) by simp
  have i: "i < length (takeWhile (\<lambda>(tid, got, v). nonfatal E got)
                         (store_answers E f who w taskIDs))"
    using assms(5) unfolding a(1) goroutines_of_steps by simp
  from steps_run_neighbour[OF l[unfolded a(1)] d i]
  have f: "filter (meta_from (taskIDs ! i)) l = deliveries (goroutines acts ! i)"
    unfolding a(1)[symmetric] by simp
  from until_exit_initial[of l] obtain r where
    r: "t @ r = l" "(\<forall>e\<in>set t. \<not> ends_process e) \<longrightarrow> r = []"
    unfolding t by blast
  from f r(1) have "filter (meta_from (taskIDs ! i)) t @ filter (meta_from (taskIDs ! i)) r =
      deliveries (goroutines acts ! i)"
    by (metis filter_append)
  with r(2) show ?thesis by auto
qed

text \<open>
  Claim C6. Called for parents or for children, \<^verbatim>\<open>watchAll\<close> starts one goroutine for
  each neighbour whose baseline read the store answers without ending the process, in
  the order of \<open>taskIDs\<close>, up to the first read that ends it, and so one for every
  neighbour when it returns. The goroutine of a neighbour calls the callback of the role
  with the neighbour's ID and, in this order: the value of the baseline response if the
  store answered the read with one; then the value of every response of the watch on the
  neighbour's key, from the index chosen, whose action is \<^verbatim>\<open>"set"\<close>, in the order
  received, and of no other response. When the neighbours are distinct, then in every
  run of these steps, however the goroutines are interleaved, what the task is handed
  for a neighbour is, in order, an initial part of the hand-overs of that neighbour's
  goroutine, and all of them when the process is not brought down during the run.
\<close>

theorem watchAll_delivers_baseline_then_sets:
  assumes "who = roleParent \<or> who = roleChild"
    and "watchAll E f who w taskIDs = (out, w', acts)"
  shows "map deliveries (goroutines acts) =
           map (\<lambda>(tid, got, v).
                  map (neighbor_callback who tid)
                    ((case got of Inl err \<Rightarrow> [] | Inr resp \<Rightarrow> [Value (Node resp)]) @
                     map (\<lambda>r. Value (Node r))
                       (filter (\<lambda>r. Action r = ''set'')
                          (etcdWatch E (neighbor_path E f who tid)
                             (case got of Inl err \<Rightarrow> 1 | Inr resp \<Rightarrow> EtcdIndex resp + 1)))))
             (takeWhile
                (\<lambda>(tid, got, v). case got of Inl err \<Rightarrow> IsKeyNotFound E err | Inr resp \<Rightarrow> True)
                (store_answers E f who w taskIDs)) \<and>
         map fst
             (takeWhile
                (\<lambda>(tid, got, v). case got of Inl err \<Rightarrow> IsKeyNotFound E err | Inr resp \<Rightarrow> True)
                (store_answers E f who w taskIDs)) =
           take (length (goroutines acts)) taskIDs \<and>
         out \<noteq> Inl GoPanic \<and>
         ((\<exists>f'. out = Inr f') \<longrightarrow> length (goroutines acts) = length taskIDs) \<and>
         (distinct taskIDs \<longrightarrow>
            (\<forall>t\<in>runs acts. \<forall>i<length (goroutines acts).
               \<exists>rest. filter (meta_from (taskIDs ! i)) t @ rest =
                        deliveries (goroutines acts ! i) \<and>
                      ((\<forall>e\<in>set t. \<not> ends_process e) \<longrightarrow> rest = [])))"
proof -
  note a = watchAll_answers[OF assms]
  have g: "goroutines acts =
      map (\<lambda>(tid, got, v). deliver (neighbor_callback who) tid (baseline got)
                              (etcdWatch E (neighbor_path E f who tid) (start_index got)))
        (takeWhile (\<lambda>(tid, got, v). nonfatal E got) (store_answers E f who w taskIDs))"
    unfolding a(1) by (rule goroutines_of_steps)
  have d: "deliveries (deliver (neighbor_callback who) tid (baseline got) receiver) =
      map (neighbor_callback who tid)
        ((case got of Inl err \<Rightarrow> [] | Inr resp \<Rightarrow> [Value (Node resp)]) @
         map (\<lambda>r. Value (Node r)) (filter (\<lambda>r. Action r = ''set'') receiver))"
    for tid receiver and got :: "error + response"
    by (cases got) (simp_all add: deliveries_deliver baseline_def)
  have m: "map deliveries (goroutines acts) =
      map (\<lambda>(tid, got, v).
             map (neighbor_callback who tid)
               ((case got of Inl err \<Rightarrow> [] | Inr resp \<Rightarrow> [Value (Node resp)]) @
                map (\<lambda>r. Value (Node r))
                  (filter (\<lambda>r. Action r = ''set'')
                     (etcdWatch E (neighbor_path E f who tid) (start_index got)))))
        (takeWhile (\<lambda>(tid, got, v). nonfatal E got) (store_answers E f who w taskIDs))"
    unfolding g by (simp add: d case_prod_unfold comp_def)
  have t: "map fst (takeWhile (\<lambda>(tid, got, v). nonfatal E got)
                      (store_answers E f who w taskIDs)) =
      take (length (goroutines acts)) taskIDs"
  proof -
    define A where "A = store_answers E f who w taskIDs"
    define P where "P = (\<lambda>(tid :: uint64, got, v :: 'a). nonfatal E got)"
    have "map fst (takeWhile P A) = map fst (take (length (takeWhile P A)) A)"
      by (metis takeWhile_eq_take)
    also have "\<dots> = take (length (takeWhile P A)) (map fst A)"
      by (simp add: take_map)
    also have "length (takeWhile P A) = length (goroutines acts)"
      unfolding g A_def P_def by simp
    also have "map fst A = taskIDs"
      unfolding A_def by simp
    finally show ?thesis unfolding A_def P_def .
  qed
  have p: "out \<noteq> Inl GoPanic"
    by (simp add: a(2))
  have l: "length (goroutines acts) = length taskIDs" if "\<exists>f'. out = Inr f'"
  proof -
    from that have
      "list_all (\<lambda>(tid, got, v). nonfatal E got) (store_answers E f who w taskIDs)"
      by (simp add: a(2) split: if_splits)
    from takeWhile_all[OF this] have tw:
      "takeWhile (\<lambda>(tid, got, v). nonfatal E got) (store_answers E f who w taskIDs) =
       store_answers E f who w taskIDs" .
    show ?thesis unfolding g tw by simp
  qed
  have r: "\<forall>t\<in>runs acts. \<forall>i<length (goroutines acts).
      \<exists>rest. filter (meta_from (taskIDs ! i)) t @ rest = deliveries (goroutines acts ! i) \<and>
             ((\<forall>e\<in>set t. \<not> ends_process e) \<longrightarrow> rest = [])"
    if "distinct taskIDs"
    using watchAll_runs[OF assms that] by blast
  from m t p l r show ?thesis
    unfolding answer_cases by blast
qed

theorem watchAll_delivers_baseline_then_sets_witness:
  "store_answers sample_env sample_framework roleParent [1, 0] [0, 2] =
     [(0, Inr (sample_meta ''get'' ''/job/tasks/0/ChildMeta'' ''m0'' 7), [1, 0]),
      (2, Inl (EtcdError 100 ''Key not found''), [1, 0])] \<and>
   IsKeyNotFound sample_env (EtcdError 100 ''Key not found'') \<and>
   etcdWatch sample_env ''/job/tasks/0/ChildMeta'' 8 =
     [sample_meta ''set'' ''/job/tasks/0/ChildMeta'' ''m1'' 9,
      sample_meta ''delete'' ''/job/tasks/0/ChildMeta'' [] 12] \<and>
   etcdWatch sample_env ''/job/tasks/2/ChildMeta'' 1 =
     [sample_meta ''set'' ''/job/tasks/2/ChildMeta'' ''ready'' 10,
      sample_meta ''set'' ''/job/tasks/2/ChildMeta'' ''ready'' 11] \<and>
   map deliveries
       (goroutines (snd (snd (watchAll sample_env sample_framework roleParent [1, 0] [0, 2])))) =
     [[ParentMetaReady 0 ''m0'', ParentMetaReady 0 ''m1''],
      [ParentMetaReady 2 ''ready'', ParentMetaReady 2 ''ready'']] \<and>
   (\<exists>f'. fst (watchAll sample_env sample_framework roleParent [1, 0] [0, 2]) = Inr f') \<and>
   length (goroutines (snd (snd (watchAll sample_env sample_framework roleParent [1, 0] [0, 2])))) =
     2 \<and>
   until_exit (events_of (snd (snd (watchAll sample_env sample_framework roleParent [1, 0] [0, 2]))))
     \<in> runs (snd (snd (watchAll sample_env sample_framework roleParent [1, 0] [0, 2]))) \<and>
   list_all (\<lambda>e. \<not> ends_process e)
     (until_exit
        (events_of (snd (snd (watchAll sample_env sample_framework roleParent [1, 0] [0, 2]))))) \<and>
   filter (meta_from 0)
       (until_exit
          (events_of (snd (snd (watchAll sample_env sample_framework roleParent [1, 0] [0, 2]))))) =
     [ParentMetaReady 0 ''m0'', ParentMetaReady 0 ''m1''] \<and>
   filter (meta_from 2)
       (until_exit
          (events_of (snd (snd (watchAll sample_env sample_framework roleParent [1, 0] [0, 2]))))) =
     [ParentMetaReady 2 ''ready'', ParentMetaReady 2 ''ready'']"
proof -
  have a: "store_answers sample_env sample_framework roleParent [1, 0] [0, 2] =
     [(0, Inr (sample_meta ''get'' ''/job/tasks/0/ChildMeta'' ''m0'' 7), [1, 0]),
      (2, Inl (EtcdError 100 ''Key not found''), [1, 0])]"
    by code_simp
  have k: "IsKeyNotFound sample_env (EtcdError 100 ''Key not found'')"
    by code_simp
  have p: "neighbor_path sample_env sample_framework roleParent 0 = ''/job/tasks/0/ChildMeta''"
    "neighbor_path sample_env sample_framework roleParent 2 = ''/job/tasks/2/ChildMeta''"
    by code_simp+
  have i: "EtcdIndex (sample_meta ''get'' ''/job/tasks/0/ChildMeta'' ''m0'' 7) = 7"
    "Value (Node (sample_meta ''get'' ''/job/tasks/0/ChildMeta'' ''m0'' 7)) = ''m0''"
    by (simp_all add: sample_meta_def)
  have e: "etcdWatch sample_env ''/job/tasks/0/ChildMeta'' 8 =
     [sample_meta ''set'' ''/job/tasks/0/ChildMeta'' ''m1'' 9,
      sample_meta ''delete'' ''/job/tasks/0/ChildMeta'' [] 12]"
    "etcdWatch sample_env ''/job/tasks/2/ChildMeta'' 1 =
     [sample_meta ''set'' ''/job/tasks/2/ChildMeta'' ''ready'' 10,
      sample_meta ''set'' ''/job/tasks/2/ChildMeta'' ''ready'' 11]"
    by code_simp+
  have s: "filter (\<lambda>r. Action r = ''set'') (etcdWatch sample_env ''/job/tasks/0/ChildMeta'' 8) =
      [sample_meta ''set'' ''/job/tasks/0/ChildMeta'' ''m1'' 9]"
    "filter (\<lambda>r. Action r = ''set'') (etcdWatch sample_env ''/job/tasks/2/ChildMeta'' 1) =
      [sample_meta ''set'' ''/job/tasks/2/ChildMeta'' ''ready'' 10,
       sample_meta ''set'' ''/job/tasks/2/ChildMeta'' ''ready'' 11]"
    "Value (Node (sample_meta ''set'' ''/job/tasks/0/ChildMeta'' ''m1'' 9)) = ''m1''"
    "Value (Node (sample_meta ''set'' ''/job/tasks/2/ChildMeta'' ''ready'' 10)) = ''ready''"
    "Value (Node (sample_meta ''set'' ''/job/tasks/2/ChildMeta'' ''ready'' 11)) = ''ready''"
    by code_simp+
  define T where "T = until_exit (events_of sample_watch_steps)"
  have T: "T \<in> runs sample_watch_steps"
    unfolding T_def by (rule sequential_run)
  have n: "list_all (\<lambda>e. \<not> ends_process e) (until_exit (events_of sample_watch_steps))"
    by code_simp
  then have n': "\<forall>e\<in>set T. \<not> ends_process e"
    by (simp add: T_def list_all_iff)
  from watchAll_delivers_baseline_then_sets[OF _ sample_watchAll]
  have m: "map deliveries (goroutines sample_watch_steps) =
     [[ParentMetaReady 0 ''m0'', ParentMetaReady 0 ''m1''],
      [ParentMetaReady 2 ''ready'', ParentMetaReady 2 ''ready'']]"
    and l: "length (goroutines sample_watch_steps) = 2"
    and r: "\<forall>t\<in>runs sample_watch_steps. \<forall>i<length (goroutines sample_watch_steps).
      \<exists>rest. filter (meta_from ([0, 2] ! i)) t @ rest =
               deliveries (goroutines sample_watch_steps ! i) \<and>
             ((\<forall>e\<in>set t. \<not> ends_process e) \<longrightarrow> rest = [])"
    unfolding a by (simp_all add: k p i s neighbor_callback_def)
  have d: "deliveries (goroutines sample_watch_steps ! 0) =
      [ParentMetaReady 0 ''m0'', ParentMetaReady 0 ''m1'']"
    "deliveries (goroutines sample_watch_steps ! 1) =
      [ParentMetaReady 2 ''ready'', ParentMetaReady 2 ''ready'']"
    using arg_cong[OF m, of "\<lambda>xs. xs ! 0"] arg_cong[OF m, of "\<lambda>xs. xs ! 1"] l
    by simp_all
  from r T l n' have q: "\<forall>i<2. filter (meta_from ([0, 2] ! i)) T =
      deliveries (goroutines sample_watch_steps ! i)"
    by fastforce
  from q[rule_format, of 0] q[rule_format, of 1]
  have x: "filter (meta_from 0) T = [ParentMetaReady 0 ''m0'', ParentMetaReady 0 ''m1'']"
    "filter (meta_from 2) T = [ParentMetaReady 2 ''ready'', ParentMetaReady 2 ''ready'']"
    unfolding d by simp_all
  from m l T n x show ?thesis
    unfolding a sample_watchAll T_def using k e by simp
qed

section \<open>Properties of Start\<close>

lemma watch_event_kinds:
  "watch_event e \<Longrightarrow> \<not> slot_acquisition e \<and> \<not> is_Init e \<and> epoch_of e = None"
  by (induction e rule: watch_event.induct) simp_all

lemma slot_acquisition_kinds:
  "slot_acquisition e \<Longrightarrow> \<not> later_stage e \<and> \<not> is_Init e \<and> \<not> ends_process e"
  by (induction e rule: slot_acquisition.induct) simp_all

lemma occupyTask_loop_events:
  "occupyTask_loop E f w ss = (r, w', tr) \<Longrightarrow> \<forall>e\<in>set tr. slot_acquisition e"
proof (induction ss arbitrary: w tr)
  case Nil
  then show ?case by simp
next
  case (Cons s ss)
  show ?case
  proof (cases "ParseUint E (path_Base E (Key s))")
    case None
    with Cons.prems obtain tr2 where l: "occupyTask_loop E f w ss = (r, w', tr2)"
      and tr: "tr = corrupted # tr2"
      by (auto simp: occupyTask_loop_Cons_skip simp del: occupyTask_loop.simps split: prod.splits)
    from Cons.IH[OF l] show ?thesis by (simp add: tr corrupted_def)
  next
    case (Some i)
    obtain ok w1 where t: "TryOccupyTask E w (name f) i (addr f) = (ok, w1)" by force
    show ?thesis
    proof (cases ok)
      case True
      with Cons.prems show ?thesis
        by (auto simp: occupyTask_loop_Cons_try[OF Some t] simp del: occupyTask_loop.simps)
    next
      case False
      with Cons.prems obtain tr2 where l: "occupyTask_loop E f w1 ss = (r, w', tr2)"
        and tr: "tr = EvTryOccupyTask (name f) i (addr f) False # tr2"
        by (auto simp: occupyTask_loop_Cons_try[OF Some t] simp del: occupyTask_loop.simps
            split: prod.splits)
      from Cons.IH[OF l] show ?thesis by (simp add: tr)
    qed
  qed
qed

lemma occupyTask_events:
  assumes "occupyTask E f w = (r, w', tr)"
  shows "\<forall>e\<in>set tr. slot_acquisition e"
proof -
  obtain got w1 where g: "etcdGet E w (MakeTaskDirPath E (name f)) True True = (got, w1)"
    by force
  show ?thesis
  proof (cases got)
    case (Inl err)
    with assms g show ?thesis by (auto simp: occupyTask_def)
  next
    case (Inr slots)
    with g have g': "etcdGet E w (MakeTaskDirPath E (name f)) True True = (Inr slots, w1)"
      by simp
    from occupyTask_listed[OF g' assms] obtain tr' where
      tr: "tr = EtcdGet (MakeTaskDirPath E (name f)) True True (Inr slots) # tr'" and
      l: "occupyTask_loop E f w1 (Nodes (Node slots)) = (r, w', tr')"
      by blast
    from occupyTask_loop_events[OF l] show ?thesis by (simp add: tr)
  qed
qed

lemma deliver_loop_events:
  "\<forall>e\<in>set (deliver_loop (neighbor_callback who) tid receiver). watch_event e \<and> \<not> ends_process e"
  by (induction receiver) (simp_all add: neighbor_callback_def)

lemma deliver_events:
  "\<forall>e\<in>set (deliver (neighbor_callback who) tid resp receiver). watch_event e \<and> \<not> ends_process e"
  using deliver_loop_events[of who tid receiver]
  by (cases resp) (simp_all add: deliver_def neighbor_callback_def)

lemma neighbor_steps_events:
  "\<forall>e\<in>set (events_of (neighbor_steps E f who tid got)).
     watch_event e \<and> (nonfatal E got \<longrightarrow> \<not> ends_process e)"
  using deliver_events[of who tid "baseline got"
      "etcdWatch E (neighbor_path E f who tid) (start_index got)"]
  by (simp add: neighbor_steps_def)

lemma watchAll_loop_events:
  "watchAll_loop E f who w taskIDs = (out, w', acts) \<Longrightarrow>
   \<forall>e\<in>set (events_of acts). watch_event e \<and> ((\<exists>ss. out = Inr ss) \<longrightarrow> \<not> ends_process e)"
proof (cases "who = roleNone")
  case True
  assume "watchAll_loop E f who w taskIDs = (out, w', acts)"
  with True show ?thesis
    by (auto simp: watchAll_loop_roleNone split: list.splits)
next
  case False
  assume "watchAll_loop E f who w taskIDs = (out, w', acts)"
  then show ?thesis
  proof (induction taskIDs arbitrary: w out acts)
    case Nil
    then show ?case by auto
  next
    case (Cons tid taskIDs)
    obtain got w1 where g: "etcdGet E w (neighbor_path E f who tid) False False = (got, w1)"
      by force
    show ?case
    proof (cases "nonfatal E got")
      case nf: False
      with Cons.prems have oa: "out = Inl FatalExit" "acts = neighbor_steps E f who tid got"
        by (simp_all add: watchAll_loop_Cons[OF False g] del: watchAll_loop.simps)
      with neighbor_steps_events[of E f who tid got] show ?thesis by simp
    next
      case nf: True
      with Cons.prems obtain out2 acts2 where
        l: "watchAll_loop E f who w1 taskIDs = (out2, w', acts2)" and
        out: "out = map_sum id ((#) (make_chan 1)) out2" and
        acts: "acts = neighbor_steps E f who tid got @ acts2"
        by (auto simp: watchAll_loop_Cons[OF False g] simp del: watchAll_loop.simps
            split: prod.splits)
      have o: "(\<exists>ss. out = Inr ss) = (\<exists>ss. out2 = Inr ss)"
        by (cases out2) (simp_all add: out)
      from Cons.IH[OF l] neighbor_steps_events[of E f who tid got] nf show ?thesis
        unfolding o acts by auto
    qed
  qed
qed

lemma watchAll_events:
  "watchAll E f who w taskIDs = (out, w', acts) \<Longrightarrow>
   \<forall>e\<in>set (events_of acts). watch_event e \<and> ((\<exists>f'. out = Inr f') \<longrightarrow> \<not> ends_process e)"
  by (auto simp: watchAll_def split: prod.splits sum.splits dest!: watchAll_loop_events)

lemma watchAll_framework:
  "watchAll E f who w taskIDs = (Inr f', w', acts) \<Longrightarrow>
   name f' = name f \<and> epoch f' = epoch f \<and> taskID f' = taskID f \<and> epochChan f' = epochChan f"
  by (auto simp: watchAll_def split: prod.splits sum.splits)

lemma Start_loop_result:
  "Start_loop f es = (f\<lparr>epoch := last (epoch f # es)\<rparr>, map (\<lambda>e. Do (SetEpoch e)) es)"
  by (induction es arbitrary: f) simp_all

lemma Start_run_result:
  "Start_run E f w =
     (f\<lparr>dataRespChan := Some (make_chan 100), epoch := last (epoch f # epochUpdates E w)\<rparr>,
      [Go (startHTTP E f w), Do GoDataResponseReceiver, Do (LogPrint ''Start the work''),
       Do (SetEpoch (epoch f))]
      @ map (\<lambda>e. Do (SetEpoch e)) (epochUpdates E w) @ [Do ReleaseResources])"
  by (simp add: Start_run_def Start_loop_result)

lemma startHTTP_events:
  "\<forall>e\<in>set (startHTTP E f w). epoch_of e = None \<and> \<not> slot_acquisition e \<and> \<not> is_Init e"
  by (cases "httpServe E w") (simp_all add: startHTTP_def)

lemma goroutines_Do [simp]: "goroutines (Do e # as) = goroutines as"
  by (simp add: goroutines_def)

lemma goroutines_map_Do [simp]: "goroutines (map (\<lambda>e. Do (g e)) es) = []"
  by (induction es) (simp_all add: goroutines_def)

lemma events_of_map_Do_fun [simp]: "events_of (map (\<lambda>e. Do (g e)) es) = map g es"
  by (induction es) simp_all

lemma main_events_map_Do_fun [simp]: "main_events (map (\<lambda>e. Do (g e)) es) = map g es"
  by (induction es) simp_all

lemma epochs_set_Cons [simp]:
  "epochs_set [] = []"
  "epochs_set (e # tr) = (case epoch_of e of None \<Rightarrow> epochs_set tr | Some x \<Rightarrow> x # epochs_set tr)"
  by (simp_all add: epochs_set_def split: option.splits)



lemma Start_watches_shape:
  assumes "Start_watches E f w = (out, f', w', acts)"
  shows "(\<forall>e\<in>set (events_of acts). \<not> slot_acquisition e \<and> \<not> is_Init e) \<and>
         (out = None \<longrightarrow>
            (\<exists>pre. acts = pre @ Do (SetEpoch (epoch f)) #
                         map (\<lambda>e. Do (SetEpoch e)) (epochUpdates E w') @ [Do ReleaseResources] \<and>
                   (\<forall>e\<in>set (events_of pre). epoch_of e = None) \<and>
                   epochChan f' = epochChan f))"
proof -
  obtain o1 w1 a1 where
    p: "watchAll E f roleParent w (GetParents E (taskID f) (epoch f)) = (o1, w1, a1)"
    using prod_cases3 by blast
  note e1 = watchAll_events[OF p]
  show ?thesis
  proof (cases o1)
    case (Inl a)
    with assms p have "out = Some a" "acts = a1" by (simp_all add: Start_watches_def)
    with e1 show ?thesis by (auto dest: watch_event_kinds)
  next
    case (Inr f1)
    note f1 = watchAll_framework[OF p[unfolded Inr]]
    obtain o2 w2 a2 where
      c: "watchAll E f1 roleChild w1 (GetChildren E (taskID f1) (epoch f1)) = (o2, w2, a2)"
      using prod_cases3 by blast
    note e2 = watchAll_events[OF c]
    show ?thesis
    proof (cases o2)
      case (Inl a)
      with assms p c Inr have "out = Some a" "acts = a1 @ a2"
        by (simp_all add: Start_watches_def)
      with e1 e2 show ?thesis by (auto dest: watch_event_kinds)
    next
      case f2: (Inr f2)
      note f2' = watchAll_framework[OF c[unfolded f2]]
      define pre where "pre = a1 @ a2 @ [Go (startHTTP E f2 w2), Do GoDataResponseReceiver,
                            Do (LogPrint ''Start the work'')]"
      from assms p c Inr f2 have r: "out = None" "w' = w2"
        "f' = f2\<lparr>dataRespChan := Some (make_chan 100),
                 epoch := last (epoch f2 # epochUpdates E w2)\<rparr>"
        "acts = pre @ Do (SetEpoch (epoch f2)) #
                map (\<lambda>e. Do (SetEpoch e)) (epochUpdates E w2) @ [Do ReleaseResources]"
        by (auto simp: Start_watches_def Start_run_result pre_def simp del: last.simps)
      have ev: "\<forall>e\<in>set (events_of pre).
                  epoch_of e = None \<and> \<not> slot_acquisition e \<and> \<not> is_Init e"
        using e1 e2 startHTTP_events[of E f2 w2]
        by (auto simp: pre_def dest: watch_event_kinds)
      then have all: "\<forall>e\<in>set (events_of acts). \<not> slot_acquisition e \<and> \<not> is_Init e"
        unfolding r(4) by auto
      from f1 f2' have eq: "epoch f2 = epoch f" "epochChan f' = epochChan f"
        by (simp_all add: r(3))
      from ev have "\<forall>e\<in>set (events_of pre). epoch_of e = None" by blast
      with r(4) eq r(2) have "\<exists>pre. acts = pre @ Do (SetEpoch (epoch f)) #
                         map (\<lambda>e. Do (SetEpoch e)) (epochUpdates E w') @ [Do ReleaseResources] \<and>
                   (\<forall>e\<in>set (events_of pre). epoch_of e = None) \<and>
                   epochChan f' = epochChan f"
        by blast
      with all show ?thesis by blast
    qed
  qed
qed

lemma Start_epoch_shape:
  assumes "Start_epoch E f w = (out, f', w', acts)"
  shows "(\<forall>e\<in>set (events_of acts). \<not> slot_acquisition e \<and> \<not> is_Init e) \<and>
         (out = None \<longrightarrow>
            (\<exists>pre e0. acts = pre @ Do (SetEpoch e0) #
                         map (\<lambda>e. Do (SetEpoch e)) (epochUpdates E w') @ [Do ReleaseResources] \<and>
                   Do (EvGetAndWatchEpoch (name f) (Inr e0)) \<in> set pre \<and>
                   (\<forall>e\<in>set (events_of pre). epoch_of e = None) \<and>
                   epochChan f' = Some (make_chan 1)))"
proof -
  obtain r w1 where g: "GetAndWatchEpoch E w (name f) = (r, w1)" by force
  show ?thesis
  proof (cases r)
    case (Inl err)
    with assms g show ?thesis by (auto simp: Start_epoch_def split: prod.splits)
  next
    case (Inr e0)
    obtain o2 f2 w2 a2 where
      s: "Start_watches E (f\<lparr>epochChan := Some (make_chan 1), epoch := e0\<rparr>) w1 = (o2, f2, w2, a2)"
      using prod_cases4 by blast
    from assms g Inr s have r: "out = o2" "f' = f2" "w' = w2"
      "acts = [Do (EvGetAndWatchEpoch (name f) (Inr e0)), Do GoHeartbeat,
               Do GoDetectAndReportFailures] @ a2"
      by (simp_all add: Start_epoch_def)
    note sh = Start_watches_shape[OF s]
    from sh have all: "\<forall>e\<in>set (events_of acts). \<not> slot_acquisition e \<and> \<not> is_Init e"
      by (auto simp: r(4))
    have "\<exists>pre e0. acts = pre @ Do (SetEpoch e0) #
                         map (\<lambda>e. Do (SetEpoch e)) (epochUpdates E w') @ [Do ReleaseResources] \<and>
                   Do (EvGetAndWatchEpoch (name f) (Inr e0)) \<in> set pre \<and>
                   (\<forall>e\<in>set (events_of pre). epoch_of e = None) \<and>
                   epochChan f' = Some (make_chan 1)" if "out = None"
    proof -
      from that sh r obtain pre where
        a2: "a2 = pre @ Do (SetEpoch e0) #
               map (\<lambda>e. Do (SetEpoch e)) (epochUpdates E w') @ [Do ReleaseResources]" and
        pre: "\<forall>e\<in>set (events_of pre). epoch_of e = None" and
        ch: "epochChan f' = Some (make_chan 1)"
        by auto
      let ?pre = "[Do (EvGetAndWatchEpoch (name f) (Inr e0)), Do GoHeartbeat,
               Do GoDetectAndReportFailures] @ pre"
      have "acts = ?pre @ Do (SetEpoch e0) #
               map (\<lambda>e. Do (SetEpoch e)) (epochUpdates E w') @ [Do ReleaseResources]"
        by (simp add: r(4) a2)
      moreover have "Do (EvGetAndWatchEpoch (name f) (Inr e0)) \<in> set ?pre" by simp
      moreover from pre have "\<forall>e\<in>set (events_of ?pre). epoch_of e = None"
        by simp
      ultimately show ?thesis using ch by blast
    qed
    with all show ?thesis by blast
  qed
qed

lemma Start_shape:
  assumes "Start E f w = (out, f', w', acts)"
  shows "if slot_acquired E f w
         then \<exists>tr i rest w2.
                acts = map Do tr @ Do (TaskInit i) # rest \<and>
                (\<forall>e\<in>set tr. \<not> is_Init e \<and> \<not> later_stage e \<and> \<not> ends_process e) \<and>
                Start_epoch E (f\<lparr>taskID := i\<rparr>) w2 = (out, f', w', rest)
         else \<exists>tr. acts = map Do tr \<and> out = Some FatalExit \<and>
                (\<forall>e\<in>set tr. \<not> is_Init e \<and> \<not> later_stage e)"
proof -
  obtain i err w1 tr where o: "occupyTask E f w = ((i, err), w1, tr)"
    by (cases "occupyTask E f w") auto
  note ev = occupyTask_events[OF o]
  obtain serr w2 where sb: "standby E w1 = (serr, w2)" by force
  show ?thesis
  proof (cases "slot_acquired E f w")
    case False
    with o sb obtain e se where e: "err = Some e" "serr = Some se"
      by (auto simp: slot_acquired_def)
    with assms o sb have r: "out = Some FatalExit"
      "acts = map Do (NewClient # tr @ [EvStandby serr] @ [Fatalf ''occupyTask failed''])"
      by (auto simp: Start_def)
    from ev have "\<forall>e\<in>set (NewClient # tr @ [EvStandby serr] @ [Fatalf ''occupyTask failed'']).
        \<not> is_Init e \<and> \<not> later_stage e"
      by (auto dest: slot_acquisition_kinds)
    with r have "\<exists>tr. acts = map Do tr \<and> out = Some FatalExit \<and>
                (\<forall>e\<in>set tr. \<not> is_Init e \<and> \<not> later_stage e)"
      by blast
    with False show ?thesis by simp
  next
    case True
    define tr' where "tr' = (case err of None \<Rightarrow> [] | Some e \<Rightarrow> [EvStandby serr])"
    define w2' where "w2' = (case err of None \<Rightarrow> w1 | Some e \<Rightarrow> w2)"
    obtain o3 f3 w3 a3 where
      s: "Start_epoch E (f\<lparr>taskID := i\<rparr>) w2' = (o3, f3, w3, a3)"
      using prod_cases4 by blast
    from True o sb have ok: "err = None \<or> serr = None" by (simp add: slot_acquired_def)
    from assms o sb s ok have r: "out = o3" "f' = f3" "w' = w3"
      "acts = map Do (NewClient # tr @ tr' @ [GetTask i, SetTaskID i]) @ Do (TaskInit i) # a3"
      by (cases err; auto simp: Start_def tr'_def w2'_def)+
    from ev have p: "\<forall>e\<in>set (NewClient # tr @ tr' @ [GetTask i, SetTaskID i]).
        \<not> is_Init e \<and> \<not> later_stage e \<and> \<not> ends_process e"
      by (cases err) (auto simp: tr'_def dest: slot_acquisition_kinds)
    from s r have "Start_epoch E (f\<lparr>taskID := i\<rparr>) w2' = (out, f', w', a3)" by simp
    with r(4) p have "\<exists>tr i rest w2.
                acts = map Do tr @ Do (TaskInit i) # rest \<and>
                (\<forall>e\<in>set tr. \<not> is_Init e \<and> \<not> later_stage e \<and> \<not> ends_process e) \<and>
                Start_epoch E (f\<lparr>taskID := i\<rparr>) w2 = (out, f', w', rest)"
      by blast
    with True show ?thesis by simp
  qed
qed


lemma sample_Start:
  "Start sample_env sample_framework [0] =
     (None,
      \<lparr>name = ''job'', addr = ''10.0.0.1:9000'', taskID = 1, epoch = 2,
        epochChan = Some (make_chan 1), dataRespChan = Some (make_chan 100),
        stops = [make_chan 1, make_chan 1]\<rparr>,
      [1, 0], sample_Start_steps)"
  by code_simp


lemma sample_Start_fatal:
  "Start sample_env sample_framework [0, 1, 2] =
     (Some FatalExit, sample_framework, [0, 1, 2], map Do sample_fatal_trace)"
  by code_simp


lemma sample_run: "events_of sample_Start_steps \<in> runs sample_Start_steps"
proof -
  have "until_exit (events_of sample_Start_steps) = events_of sample_Start_steps"
    by code_simp
  with sequential_run[of sample_Start_steps] show ?thesis by simp
qed








text \<open>
  Claim C9 fails on the code in the runs in which slot acquisition ends the process:
  in the sample job with all three slots taken, \<^verbatim>\<open>occupyTask\<close> and \<^verbatim>\<open>standby\<close> return
  errors, the process exits, and \<^verbatim>\<open>Task.Init\<close> has not been called.
\<close>

theorem Start_fatal_acquisition_never_inits:
  "Start sample_env sample_framework [0, 1, 2] =
     (Some FatalExit, sample_framework, [0, 1, 2], map Do sample_fatal_trace) \<and>
   runs (map Do sample_fatal_trace) = {sample_fatal_trace} \<and>
   filter is_Init sample_fatal_trace = []"
proof -
  have "until_exit sample_fatal_trace = sample_fatal_trace" by code_simp
  then have r: "runs (map Do sample_fatal_trace) = {sample_fatal_trace}"
    by (simp add: runs_map_Do)
  have e: "filter is_Init sample_fatal_trace = []" by code_simp
  from sample_Start_fatal r e show ?thesis by simp
qed

text \<open>
  Claim C9 as amended. In every run of \<^verbatim>\<open>Start\<close> in which slot acquisition leaves the
  process running, \<^verbatim>\<open>Task.Init\<close> is called exactly once: before it there is no event of
  the epoch fetch, of the establishment of the neighbour watches or of the start of the
  data server and no call of \<^verbatim>\<open>SetEpoch\<close>, \<^verbatim>\<open>ParentMetaReady\<close> or \<^verbatim>\<open>ChildMetaReady\<close>, and
  after it there is no event of slot acquisition. In the other runs the process exits
  in slot acquisition, and the run has neither a call of \<^verbatim>\<open>Task.Init\<close> nor any of those
  later events.
\<close>

theorem Start_Init_once_after_acquisition:
  assumes "Start E f w = (out, f', w', acts)" and "tr \<in> runs acts"
  shows "if slot_acquired E f w
         then \<exists>pre i post.
                tr = pre @ TaskInit i # post \<and>
                (\<forall>e\<in>set pre. \<not> is_Init e \<and> \<not> later_stage e) \<and>
                (\<forall>e\<in>set post. \<not> is_Init e \<and> \<not> slot_acquisition e)
         else out = Some FatalExit \<and> filter (\<lambda>e. is_Init e \<or> later_stage e) tr = []"
proof (cases "slot_acquired E f w")
  case False
  with Start_shape[OF assms(1)] obtain tr0 where
    a: "acts = map Do tr0" and o: "out = Some FatalExit" and
    p: "\<forall>e\<in>set tr0. \<not> is_Init e \<and> \<not> later_stage e"
    by auto
  from assms(2) have "tr = until_exit tr0" by (simp add: a runs_map_Do)
  with p set_until_exit[of tr0] have "\<forall>e\<in>set tr. \<not> (is_Init e \<or> later_stage e)" by auto
  then have "filter (\<lambda>e. is_Init e \<or> later_stage e) tr = []"
    by (simp add: filter_empty_conv)
  with o False show ?thesis by simp
next
  case True
  with Start_shape[OF assms(1)] obtain tr0 i rest w2 where
    a: "acts = map Do tr0 @ Do (TaskInit i) # rest" and
    p: "\<forall>e\<in>set tr0. \<not> is_Init e \<and> \<not> later_stage e \<and> \<not> ends_process e" and
    se: "Start_epoch E (f\<lparr>taskID := i\<rparr>) w2 = (out, f', w', rest)"
    by auto
  from Start_epoch_shape[OF se]
  have r: "\<forall>e\<in>set (events_of rest). \<not> slot_acquisition e \<and> \<not> is_Init e" by blast
  have a': "acts = map Do (tr0 @ [TaskInit i]) @ rest" by (simp add: a)
  from assms(2) obtain t where t: "t \<in> linearisations rest"
    "tr = until_exit ((tr0 @ [TaskInit i]) @ t)"
    unfolding runs_def a' linearisations_map_Do_append by auto
  from p have "\<forall>e\<in>set (tr0 @ [TaskInit i]). \<not> ends_process e" by simp
  from until_exit_append[OF this] t(2) have tr: "tr = tr0 @ TaskInit i # until_exit t"
    by simp
  from linearisations_events[OF t(1)] r set_until_exit[of t]
  have "\<forall>e\<in>set (until_exit t). \<not> is_Init e \<and> \<not> slot_acquisition e" by auto
  with tr p have "\<exists>pre i post.
                tr = pre @ TaskInit i # post \<and>
                (\<forall>e\<in>set pre. \<not> is_Init e \<and> \<not> later_stage e) \<and>
                (\<forall>e\<in>set post. \<not> is_Init e \<and> \<not> slot_acquisition e)"
    by blast
  with True show ?thesis by simp
qed

theorem Start_Init_once_after_acquisition_witness:
  "slot_acquired sample_env sample_framework [0] \<and>
   (\<exists>pre i post.
      events_of sample_Start_steps = pre @ TaskInit i # post \<and>
      (\<forall>e\<in>set pre. \<not> is_Init e \<and> \<not> later_stage e) \<and>
      (\<forall>e\<in>set post. \<not> is_Init e \<and> \<not> slot_acquisition e)) \<and>
   filter is_Init (events_of sample_Start_steps) = [TaskInit 1] \<and>
   \<not> slot_acquired sample_env sample_framework [0, 1, 2] \<and>
   filter (\<lambda>e. is_Init e \<or> later_stage e) sample_fatal_trace = []"
proof -
  have s: "slot_acquired sample_env sample_framework [0]"
    "\<not> slot_acquired sample_env sample_framework [0, 1, 2]"
    by code_simp+
  have i: "filter is_Init (events_of sample_Start_steps) = [TaskInit 1]"
    by code_simp
  have "until_exit sample_fatal_trace = sample_fatal_trace" by code_simp
  then have r: "sample_fatal_trace \<in> runs (map Do sample_fatal_trace)"
    by (simp add: runs_map_Do)
  from Start_Init_once_after_acquisition[OF sample_Start sample_run]
    Start_Init_once_after_acquisition[OF sample_Start_fatal r] s i
  show ?thesis by simp
qed


end
